theory Spec2Isabelle
  imports Complex_Main "HOL-Library.Sublist"
begin

section \<open>The video translation pipeline of translatorelevenlabs.py\<close>

text \<open>
  The program is a sequence of stages around external services (a video library, a
  speech recogniser, a translation model, a speech synthesiser) and temporary files.
  The embedding makes both explicit: the services are the fields of an environment
  \<open>env\<close> that gives the outcome of every call, an exception being one of the outcomes;
  the storage, the temporary-name generator and everything the run shows or calls are a
  \<open>world\<close> that each function takes and returns.
\<close>

subsection \<open>Python library functions used by the source\<close>

text \<open>\<^verbatim>\<open>sep.join(xs)\<close> on a list of strings.\<close>

fun py_join :: "string \<Rightarrow> string list \<Rightarrow> string" where
  "py_join sep [] = []"
| "py_join sep [x] = x"
| "py_join sep (x # y # ys) = x @ sep @ py_join sep (y # ys)"

text \<open>
  \<^verbatim>\<open>range(start, stop, step)\<close> for non-negative arguments. Python raises ValueError
  for a zero step; the only step the source uses is the constant chunk length.
\<close>

function py_range :: "nat \<Rightarrow> nat \<Rightarrow> nat \<Rightarrow> nat list" where
  "py_range i stop step =
     (if step = 0 then []
      else if i < stop then i # py_range (i + step) stop step
      else [])"
  by pat_completeness auto
termination
  by (relation "measure (\<lambda>(i, stop, step). stop - i)") auto

declare py_range.simps [simp del]

text \<open>\<^verbatim>\<open>s.rfind(c)\<close>: the highest index of \<open>c\<close> in \<open>s\<close>, or -1.\<close>

fun py_rfind :: "char \<Rightarrow> string \<Rightarrow> int" where
  "py_rfind c [] = - 1"
| "py_rfind c (x # xs) =
     (let r = py_rfind c xs
      in if 0 \<le> r then r + 1 else if x = c then 0 else - 1)"

text \<open>
  \<^verbatim>\<open>os.path.splitext(p)\<close> of posixpath: the extension starts at the last dot of the
  last path component, unless that component has only dots before it.
\<close>

definition splitext :: "string \<Rightarrow> string \<times> string" where
  "splitext p =
     (let sepIndex = py_rfind CHR ''/'' p;
          dotIndex = py_rfind CHR ''.'' p
      in if sepIndex < dotIndex \<and>
            list_ex (\<lambda>c. c \<noteq> CHR ''.'')
              (take (nat (dotIndex - (sepIndex + 1))) (drop (nat (sepIndex + 1)) p))
         then (take (nat dotIndex) p, drop (nat dotIndex) p)
         else (p, []))"

text \<open>\<^verbatim>\<open>str(n)\<close> for a non-negative integer.\<close>

definition digit_char :: "nat \<Rightarrow> char" where
  "digit_char d = ''0123456789'' ! d"

function str_nat :: "nat \<Rightarrow> string" where
  "str_nat n =
     (if n < 10 then [digit_char n]
      else str_nat (n div 10) @ [digit_char (n mod 10)])"
  by pat_completeness auto
termination
  by (relation "measure id") auto

declare str_nat.simps [simp del]

subsection \<open>Storage, temporary names and the observable trace\<close>

text \<open>
  A path is either one the caller gave (or one derived from it), or a name made by
  \<^verbatim>\<open>tempfile.mktemp(suffix=...)\<close>. mktemp returns a name that is not in use; the model
  numbers the names it hands out.
\<close>

datatype path = UserPath string | TmpPath nat string

datatype event =
    Progress nat
  | Status string
  | UiError string
  | UiWarning string
  | UiText string
  | FileCreated path
  | FileRemoved path
  | SttCall nat
  | TranslateCall string
  | SynthCall string
  | RemuxCall string path string string string

record world =
  files :: "path set"
  tmp_counter :: nat
  trace :: "event list"

definition emit :: "event \<Rightarrow> world \<Rightarrow> world" where
  "emit e w = w\<lparr>trace := trace w @ [e]\<rparr>"

definition mktemp :: "string \<Rightarrow> world \<Rightarrow> path \<times> world" where
  "mktemp sfx w = (TmpPath (tmp_counter w) sfx, w\<lparr>tmp_counter := Suc (tmp_counter w)\<rparr>)"

definition create_file :: "path \<Rightarrow> world \<Rightarrow> world" where
  "create_file p w = emit (FileCreated p) (w\<lparr>files := insert p (files w)\<rparr>)"

text \<open>\<^verbatim>\<open>os.remove(p)\<close> raises FileNotFoundError when \<open>p\<close> does not exist.\<close>

definition os_remove :: "path \<Rightarrow> world \<Rightarrow> string + world" where
  "os_remove p w =
     (if p \<in> files w then Inr (emit (FileRemoved p) (w\<lparr>files := files w - {p}\<rparr>))
      else Inl ''No such file or directory'')"

subsection \<open>The external services\<close>

text \<open>
  A call that writes a file either returns, the file written, or raises with a message;
  a call that raises may leave a partial file at the destination.
\<close>

datatype write_result = Written | WriteRaises string bool

text \<open>
  The outcomes of recognising one chunk: the text, the two exceptions the loop of
  \<^verbatim>\<open>recognize_speech\<close> handles, and any other exception.
\<close>

datatype stt_outcome =
    Recognized string
  | UnknownValueError
  | RequestError string
  | SttRaises string

record env =
  video_clip :: "string \<Rightarrow> string + real"
  audio_write :: "string \<Rightarrow> write_result"
  from_wav :: "path \<Rightarrow> string + nat"
  chunk_export :: "nat \<Rightarrow> write_result"
  recognize_google :: "nat \<Rightarrow> stt_outcome"
  generate_content :: "string \<Rightarrow> string + string"
  text_to_speech :: "string \<Rightarrow> write_result"
  write_videofile :: "string \<Rightarrow> path \<Rightarrow> path \<Rightarrow> write_result"

text \<open>
  \<open>video_clip p\<close> is \<^verbatim>\<open>VideoFileClip(p)\<close>: the clip's duration in seconds, or the
  message of the exception raised on opening it. \<open>audio_write p\<close> is
  \<^verbatim>\<open>video.audio.write_audiofile(...)\<close> for the clip of \<open>p\<close> (a clip without an audio
  track raises there). \<open>from_wav a\<close> is \<^verbatim>\<open>len(AudioSegment.from_wav(a))\<close>, in
  milliseconds. \<open>chunk_export i\<close> and \<open>recognize_google i\<close> are the export and the
  recognition of chunk \<open>i\<close>. \<open>generate_content prompt\<close> is the \<^verbatim>\<open>.text\<close> of the model's
  response. \<open>text_to_speech text\<close> is the synthesis request and the writing of its
  stream. \<open>write_videofile video audio out\<close> is the writing of the final video.
\<close>

subsection \<open>generate_speech_eleven_labs\<close>

definition generate_speech_eleven_labs :: "env \<Rightarrow> string \<Rightarrow> world \<Rightarrow> path option \<times> world" where
  "generate_speech_eleven_labs e text w =
     (let (temp_audio_path, w1) = mktemp ''.mp3'' w;
          w2 = emit (SynthCall text) w1
      in case text_to_speech e text of
           Written \<Rightarrow> (Some temp_audio_path, create_file temp_audio_path w2)
         | WriteRaises msg left \<Rightarrow>
             (None, emit (UiError (''Error in speech generation: '' @ msg))
                      (if left then create_file temp_audio_path w2 else w2)))"

subsection \<open>check_video_duration\<close>

definition check_video_duration :: "env \<Rightarrow> string \<Rightarrow> world \<Rightarrow> bool \<times> world" where
  "check_video_duration e video_path w =
     (case video_clip e video_path of
        Inr duration \<Rightarrow> (duration \<le> 90, w)
      | Inl msg \<Rightarrow> (False, emit (UiError (''Error checking video duration: '' @ msg)) w))"

subsection \<open>extract_audio\<close>

definition extract_audio :: "env \<Rightarrow> string \<Rightarrow> world \<Rightarrow> path option \<times> world" where
  "extract_audio e video_path w =
     (case video_clip e video_path of
        Inl msg \<Rightarrow> (None, emit (UiError (''Error in audio extraction: '' @ msg)) w)
      | Inr duration \<Rightarrow>
          (let (temp_audio_path, w1) = mktemp ''.wav'' w
           in case audio_write e video_path of
                Written \<Rightarrow> (Some temp_audio_path, create_file temp_audio_path w1)
              | WriteRaises msg left \<Rightarrow>
                  (None, emit (UiError (''Error in audio extraction: '' @ msg))
                           (if left then create_file temp_audio_path w1 else w1))))"

subsection \<open>recognize_speech\<close>

definition chunk_length :: nat where
  "chunk_length = 30 * 1000"

text \<open>
  \<^verbatim>\<open>audio[a:b]\<close> of pydub, on an audio of \<open>len\<close> milliseconds: both ends are clamped
  to the length. A chunk is kept as its two ends.
\<close>

definition audio_slice :: "nat \<Rightarrow> nat \<Rightarrow> nat \<Rightarrow> nat \<times> nat" where
  "audio_slice len a b = (min a len, min b len)"

definition chunks :: "nat \<Rightarrow> (nat \<times> nat) list" where
  "chunks len = map (\<lambda>i. audio_slice len i (i + chunk_length)) (py_range 0 len chunk_length)"

text \<open>
  One pass of the body of the loop over \<^verbatim>\<open>enumerate(chunks)\<close>, for chunk \<open>i\<close>.
  \<open>Inl msg\<close> is an exception that leaves the loop; the two exceptions handled inside
  the loop only show a message. The result is the list \<^verbatim>\<open>transcribed_text\<close>.
\<close>

definition recognize_chunk ::
  "env \<Rightarrow> nat \<Rightarrow> string list \<Rightarrow> world \<Rightarrow> (string + string list) \<times> world" where
  "recognize_chunk e i transcribed_text w =
     (let (chunk_path, w1) = mktemp ''.wav'' w
      in case chunk_export e i of
           WriteRaises msg left \<Rightarrow> (Inl msg, if left then create_file chunk_path w1 else w1)
         | Written \<Rightarrow>
             (let w2 = emit (SttCall i) (create_file chunk_path w1);
                  (raised, texts, w3) =
                    (case recognize_google e i of
                       Recognized text \<Rightarrow>
                         (None, transcribed_text @ [text],
                          emit (UiText (''Chunk '' @ str_nat (i + 1) @ '' recognized'')) w2)
                     | UnknownValueError \<Rightarrow>
                         (None, transcribed_text,
                          emit (UiWarning (''Could not understand audio in chunk '' @ str_nat (i + 1))) w2)
                     | RequestError msg \<Rightarrow>
                         (None, transcribed_text,
                          emit (UiError (''Error with the speech recognition service: '' @ msg)) w2)
                     | SttRaises msg \<Rightarrow> (Some msg, transcribed_text, w2))
              in case raised of
                   Some msg \<Rightarrow> (Inl msg, w3)
                 | None \<Rightarrow>
                     (case os_remove chunk_path w3 of
                        Inl msg \<Rightarrow> (Inl msg, w3)
                      | Inr w4 \<Rightarrow> (Inr texts, w4))))"

text \<open>The loop: the passes in order, until the chunks are used up or an exception leaves it.\<close>

fun recognize_chunks ::
  "env \<Rightarrow> nat \<Rightarrow> (nat \<times> nat) list \<Rightarrow> string list \<Rightarrow> world \<Rightarrow> (string + string list) \<times> world" where
  "recognize_chunks e i [] transcribed_text w = (Inr transcribed_text, w)"
| "recognize_chunks e i (chunk # rest) transcribed_text w =
     (case recognize_chunk e i transcribed_text w of
        (Inl msg, w1) \<Rightarrow> (Inl msg, w1)
      | (Inr texts, w1) \<Rightarrow> recognize_chunks e (i + 1) rest texts w1)"

definition recognize_speech :: "env \<Rightarrow> path \<Rightarrow> world \<Rightarrow> string option \<times> world" where
  "recognize_speech e audio_path w =
     (case from_wav e audio_path of
        Inl msg \<Rightarrow> (None, emit (UiError (''Error in speech recognition: '' @ msg)) w)
      | Inr len \<Rightarrow>
          (case recognize_chunks e 0 (chunks len) [] w of
             (Inl msg, w1) \<Rightarrow> (None, emit (UiError (''Error in speech recognition: '' @ msg)) w1)
           | (Inr transcribed_text, w1) \<Rightarrow> (Some (py_join '' '' transcribed_text), w1)))"

subsection \<open>process_video\<close>

definition preserve_terms :: "string list" where
  "preserve_terms = [''namaz'', ''allah'', ''ramadan'', ''eid'', ''hajj'', ''zakat'', ''masjid'']"

text \<open>The request sent to the translation model: the f-string of the source, line breaks included.\<close>

definition translation_prompt :: "string \<Rightarrow> string" where
  "translation_prompt urdu_text =
     ''Translate the following Urdu text to English. '' @ [CHR 0x0A] @
     ''    Important: Preserve these religious and cultural terms exactly as they are: '' @
     py_join '', '' preserve_terms @ [CHR 0x0A] @
     ''    Do not translate these terms to English equivalents. Urdu text: '' @ urdu_text @
     ''. Provide only the translated text in output.''"

definition output_path_of :: "string \<Rightarrow> string" where
  "output_path_of video_path = fst (splitext video_path) @ ''_translated.mp4''"

text \<open>
  One pass of the clean-up loop: \<^verbatim>\<open>if os.path.exists(p): os.remove(p)\<close>, any exception
  swallowed.
\<close>

definition cleanup :: "path \<Rightarrow> world \<Rightarrow> world" where
  "cleanup p w =
     (if p \<in> files w then (case os_remove p w of Inr w1 \<Rightarrow> w1 | Inl msg \<Rightarrow> w) else w)"

text \<open>
  The body of the \<^verbatim>\<open>try\<close> of \<^verbatim>\<open>process_video\<close>, one definition for each of its
  commented sections, the last section first; each section ends by entering the next.
  \<open>Inl msg\<close> is an exception that reaches the handler of \<^verbatim>\<open>process_video\<close>; \<open>Inr r\<close>
  is a \<^verbatim>\<open>return r\<close>, \<open>None\<close> being Python's None.
\<close>

text \<open>\<^verbatim>\<open># Create final video\<close>, \<^verbatim>\<open># Combine video with new audio\<close> and \<^verbatim>\<open># Clean up\<close>.\<close>

definition create_final_video ::
  "env \<Rightarrow> string \<Rightarrow> path \<Rightarrow> path \<Rightarrow> world \<Rightarrow> (string + string option) \<times> world" where
  "create_final_video e video_path audio_path english_audio_path w =
     (let w1 = emit (Status ''Creating final video...'') w;
          output_path = output_path_of video_path;
          w2 = emit (RemuxCall video_path english_audio_path output_path ''libx264'' ''aac'') w1
      in case write_videofile e video_path english_audio_path (UserPath output_path) of
           WriteRaises msg left \<Rightarrow>
             (Inl msg, if left then create_file (UserPath output_path) w2 else w2)
         | Written \<Rightarrow>
             (let w3 = create_file (UserPath output_path) w2;
                  w4 = cleanup english_audio_path (cleanup audio_path w3);
                  w5 = emit (Status ''Video processing complete!'') (emit (Progress 100) w4)
              in (Inr (Some output_path), w5)))"

text \<open>\<^verbatim>\<open># Generate speech using ElevenLabs\<close>.\<close>

definition generate_english_speech ::
  "env \<Rightarrow> string \<Rightarrow> path \<Rightarrow> string \<Rightarrow> world \<Rightarrow> (string + string option) \<times> world" where
  "generate_english_speech e video_path audio_path english_text w =
     (let w1 = emit (Status ''Generating English speech with ElevenLabs...'') w
      in case generate_speech_eleven_labs e english_text w1 of
           (None, w2) \<Rightarrow> (Inr None, w2)
         | (Some english_audio_path, w2) \<Rightarrow>
             create_final_video e video_path audio_path english_audio_path (emit (Progress 85) w2))"

text \<open>\<^verbatim>\<open># Translate\<close>.\<close>

definition translate_to_english ::
  "env \<Rightarrow> string \<Rightarrow> path \<Rightarrow> string \<Rightarrow> world \<Rightarrow> (string + string option) \<times> world" where
  "translate_to_english e video_path audio_path urdu_text w =
     (let w1 = emit (Status ''Translating to English...'') w;
          prompt = translation_prompt urdu_text;
          w2 = emit (TranslateCall prompt) w1
      in case generate_content e prompt of
           Inl msg \<Rightarrow> (Inl msg, w2)
         | Inr english_text \<Rightarrow>
             generate_english_speech e video_path audio_path english_text (emit (Progress 75) w2))"

text \<open>\<^verbatim>\<open># Recognize speech\<close>. \<^verbatim>\<open>not urdu_text\<close> holds of None and of the empty string.\<close>

definition recognize_urdu_speech ::
  "env \<Rightarrow> string \<Rightarrow> path \<Rightarrow> world \<Rightarrow> (string + string option) \<times> world" where
  "recognize_urdu_speech e video_path audio_path w =
     (let w1 = emit (Status ''Recognizing Urdu speech...'') w
      in case recognize_speech e audio_path w1 of
           (None, w2) \<Rightarrow> (Inr None, w2)
         | (Some urdu_text, w2) \<Rightarrow>
             if urdu_text = [] then (Inr None, w2)
             else translate_to_english e video_path audio_path urdu_text (emit (Progress 50) w2))"

text \<open>The start of the body, \<^verbatim>\<open># Process video\<close> and \<^verbatim>\<open># Extract audio\<close>.\<close>

definition process_video_body :: "env \<Rightarrow> string \<Rightarrow> world \<Rightarrow> (string + string option) \<times> world" where
  "process_video_body e video_path w =
     (let w1 = emit (Progress 0) w
      in case video_clip e video_path of
           Inl msg \<Rightarrow> (Inl msg, w1)
         | Inr duration \<Rightarrow>
             (let w2 = emit (Status ''Extracting audio...'') w1
              in case extract_audio e video_path w2 of
                   (None, w3) \<Rightarrow> (Inr None, w3)
                 | (Some audio_path, w3) \<Rightarrow>
                     recognize_urdu_speech e video_path audio_path (emit (Progress 25) w3)))"

definition process_video :: "env \<Rightarrow> string \<Rightarrow> world \<Rightarrow> string option \<times> world" where
  "process_video e video_path w =
     (case process_video_body e video_path w of
        (Inl msg, w1) \<Rightarrow> (None, emit (UiError (''Error processing video: '' @ msg)) w1)
      | (Inr r, w1) \<Rightarrow> (r, w1))"

text \<open>What one run adds to the trace.\<close>

definition run_events :: "env \<Rightarrow> string \<Rightarrow> world \<Rightarrow> event list" where
  "run_events e video_path w = drop (length (trace w)) (trace (snd (process_video e video_path w)))"

subsection \<open>Notions the properties are stated with\<close>

text \<open>What the outcome of one chunk adds to \<^verbatim>\<open>transcribed_text\<close>.\<close>

fun recognized_fragment :: "stt_outcome \<Rightarrow> string list" where
  "recognized_fragment (Recognized text) = [text]"
| "recognized_fragment UnknownValueError = []"
| "recognized_fragment (RequestError msg) = []"
| "recognized_fragment (SttRaises msg) = []"

text \<open>The recognised fragments of the chunks \<open>i, ..., i + n - 1\<close>, in the order of the chunks.\<close>

fun fragments_from :: "env \<Rightarrow> nat \<Rightarrow> nat \<Rightarrow> string list" where
  "fragments_from e i 0 = []"
| "fragments_from e i (Suc n) = recognized_fragment (recognize_google e i) @ fragments_from e (Suc i) n"

definition fragments :: "env \<Rightarrow> nat \<Rightarrow> string list" where
  "fragments e n = fragments_from e 0 n"

text \<open>The two failures of a chunk that the loop recovers from.\<close>

fun soft_failure :: "stt_outcome \<Rightarrow> bool" where
  "soft_failure UnknownValueError = True"
| "soft_failure (RequestError msg) = True"
| "soft_failure (Recognized text) = False"
| "soft_failure (SttRaises msg) = False"

text \<open>A pass of the loop ends normally: the chunk is exported and no other exception is raised.\<close>

fun pass_completes :: "write_result \<Rightarrow> stt_outcome \<Rightarrow> bool" where
  "pass_completes Written (SttRaises msg) = False"
| "pass_completes Written outcome = True"
| "pass_completes (WriteRaises msg left) outcome = False"

fun loop_completes_from :: "env \<Rightarrow> nat \<Rightarrow> nat \<Rightarrow> bool" where
  "loop_completes_from e i 0 = True"
| "loop_completes_from e i (Suc n) =
     (pass_completes (chunk_export e i) (recognize_google e i) \<and> loop_completes_from e (Suc i) n)"

definition loop_completes :: "env \<Rightarrow> nat \<Rightarrow> bool" where
  "loop_completes e n = loop_completes_from e 0 n"

text \<open>
  The joined text with every character marked: \<open>True\<close> for a character of a separator
  that the join put in, \<open>False\<close> for a character of a fragment.
\<close>

fun join_marked :: "string \<Rightarrow> string list \<Rightarrow> (char \<times> bool) list" where
  "join_marked sep [] = []"
| "join_marked sep [x] = map (\<lambda>c. (c, False)) x"
| "join_marked sep (x # y # ys) =
     map (\<lambda>c. (c, False)) x @ map (\<lambda>c. (c, True)) sep @ join_marked sep (y # ys)"

definition separator_at_end :: "(char \<times> bool) list \<Rightarrow> bool" where
  "separator_at_end ms = (ms \<noteq> [] \<and> (snd (hd ms) \<or> snd (last ms)))"

fun separator_doubled :: "(char \<times> bool) list \<Rightarrow> bool" where
  "separator_doubled [] = False"
| "separator_doubled [m] = False"
| "separator_doubled (m # m' # ms) = ((snd m \<and> snd m') \<or> separator_doubled (m' # ms))"

text \<open>The progress values in a trace, and the events that touch storage or call a service.\<close>

fun progress_of :: "event list \<Rightarrow> nat list" where
  "progress_of [] = []"
| "progress_of (Progress n # es) = n # progress_of es"
| "progress_of (ev # es) = progress_of es"

definition checkpoints :: "nat list" where
  "checkpoints = [0, 25, 50, 75, 85, 100]"

text \<open>
  A section that starts in \<open>w\<close> and ends with \<open>rw\<close> reports a prefix of the progress
  values \<open>cs\<close>, and all of them exactly when it returns an output path.
\<close>

definition reports :: "(string + string option) \<times> world \<Rightarrow> world \<Rightarrow> nat list \<Rightarrow> bool" where
  "reports rw w cs =
     (\<exists>ps. progress_of (trace (snd rw)) = progress_of (trace w) @ ps \<and> prefix ps cs \<and>
           ((ps = cs) = (\<exists>out. fst rw = Inr (Some out))))"

fun is_io :: "event \<Rightarrow> bool" where
  "is_io (FileCreated p) = True"
| "is_io (FileRemoved p) = True"
| "is_io (SttCall i) = True"
| "is_io (TranslateCall t) = True"
| "is_io (SynthCall t) = True"
| "is_io (RemuxCall v a out vc ac) = True"
| "is_io ev = False"

fun is_translate_call :: "event \<Rightarrow> bool" where
  "is_translate_call (TranslateCall t) = True"
| "is_translate_call ev = False"

fun is_synth_call :: "event \<Rightarrow> bool" where
  "is_synth_call (SynthCall t) = True"
| "is_synth_call ev = False"

fun is_remux_call :: "event \<Rightarrow> bool" where
  "is_remux_call (RemuxCall v a out vc ac) = True"
| "is_remux_call ev = False"

text \<open>The storage and service events of the pass for chunk \<open>i\<close>, its file being number \<open>c\<close>.\<close>

definition pass_io :: "nat \<Rightarrow> nat \<Rightarrow> event list" where
  "pass_io c i = [FileCreated (TmpPath c ''.wav''), SttCall i, FileRemoved (TmpPath c ''.wav'')]"

fun loop_io :: "nat \<Rightarrow> nat \<Rightarrow> nat \<Rightarrow> event list" where
  "loop_io c i 0 = []"
| "loop_io c i (Suc n) = pass_io c i @ loop_io (Suc c) (Suc i) n"

text \<open>
  Every stage of a run on \<open>video_path\<close> from \<open>w\<close> returns normally and with a result: the
  clip opens, its audio is written, the audio loads, the loop over its chunks completes
  with a text that is not empty, the translation returns, the speech is written and the
  final video is written. The temporary names are the ones the run is given.
\<close>

definition stages_return :: "env \<Rightarrow> string \<Rightarrow> world \<Rightarrow> bool" where
  "stages_return e video_path w =
     (case video_clip e video_path of
        Inl msg \<Rightarrow> False
      | Inr duration \<Rightarrow>
          audio_write e video_path = Written \<and>
          (case from_wav e (TmpPath (tmp_counter w) ''.wav'') of
             Inl msg \<Rightarrow> False
           | Inr len \<Rightarrow>
               loop_completes e (length (chunks len)) \<and>
               py_join '' '' (fragments e (length (chunks len))) \<noteq> [] \<and>
               (case generate_content e
                       (translation_prompt (py_join '' '' (fragments e (length (chunks len))))) of
                  Inl msg \<Rightarrow> False
                | Inr english_text \<Rightarrow>
                    text_to_speech e english_text = Written \<and>
                    write_videofile e video_path
                      (TmpPath (Suc (tmp_counter w) + length (chunks len)) ''.mp3'')
                      (UserPath (output_path_of video_path)) = Written)))"

text \<open>
  The text that \<^verbatim>\<open>recognize_speech\<close> returns to a run on \<open>video_path\<close> from \<open>w\<close>, if
  the run comes to call it: \<open>None\<close> when the run ends before, or when
  \<^verbatim>\<open>recognize_speech\<close> returns None.
\<close>

definition source_text :: "env \<Rightarrow> string \<Rightarrow> world \<Rightarrow> string option" where
  "source_text e video_path w =
     (case video_clip e video_path of
        Inl msg \<Rightarrow> None
      | Inr duration \<Rightarrow>
          (case audio_write e video_path of
             WriteRaises msg left \<Rightarrow> None
           | Written \<Rightarrow> fst (recognize_speech e (TmpPath (tmp_counter w) ''.wav'') w)))"

subsection \<open>Scenarios\<close>

text \<open>
  A 45-second clip of two chunks, both recognised, every service answering; the other
  scenarios change one service of it.
\<close>

definition clear_speech :: env where
  "clear_speech =
     \<lparr>video_clip = (\<lambda>p. Inr 45),
      audio_write = (\<lambda>p. Written),
      from_wav = (\<lambda>a. Inr 45000),
      chunk_export = (\<lambda>i. Written),
      recognize_google = (\<lambda>i. Recognized (if i = 0 then ''assalam'' else ''alaikum'')),
      generate_content = (\<lambda>prompt. Inr ''peace be upon you''),
      text_to_speech = (\<lambda>text. Written),
      write_videofile = (\<lambda>v a out. Written)\<rparr>"

definition unintelligible :: env where
  "unintelligible = clear_speech\<lparr>recognize_google := (\<lambda>i. UnknownValueError)\<rparr>"

definition empty_fragment :: env where
  "empty_fragment = clear_speech\<lparr>recognize_google := (\<lambda>i. Recognized (if i = 0 then [] else ''alaikum''))\<rparr>"

definition empty_translation :: env where
  "empty_translation = clear_speech\<lparr>generate_content := (\<lambda>prompt. Inr [])\<rparr>"


definition recogniser_crash :: env where
  "recogniser_crash = clear_speech\<lparr>recognize_google := (\<lambda>i. SttRaises ''connection reset'')\<rparr>"

definition unreadable :: env where
  "unreadable = clear_speech\<lparr>video_clip := (\<lambda>p. Inl ''file could not be opened'')\<rparr>"

definition two_minutes :: env where
  "two_minutes = clear_speech\<lparr>video_clip := (\<lambda>p. Inr 120)\<rparr>"


definition corrupt_audio :: env where
  "corrupt_audio = clear_speech\<lparr>from_wav := (\<lambda>a. Inl ''not a wav file'')\<rparr>"



definition start :: world where
  "start = \<lparr>files = {UserPath ''clip.mp4''}, tmp_counter = 0, trace = []\<rparr>"

section \<open>Properties\<close>

subsection \<open>The world operations\<close>

lemma emit_simps [simp]:
  "trace (emit ev w) = trace w @ [ev]"
  "files (emit ev w) = files w"
  "tmp_counter (emit ev w) = tmp_counter w"
  by (simp_all add: emit_def)

lemma create_file_simps [simp]:
  "trace (create_file p w) = trace w @ [FileCreated p]"
  "files (create_file p w) = insert p (files w)"
  "tmp_counter (create_file p w) = tmp_counter w"
  by (simp_all add: create_file_def)

lemma os_remove_existing:
  "p \<in> files w \<Longrightarrow> os_remove p w = Inr (emit (FileRemoved p) (w\<lparr>files := files w - {p}\<rparr>))"
  by (simp add: os_remove_def)

lemma cleanup_simps [simp]:
  "files (cleanup p w) = files w - {p}"
  "tmp_counter (cleanup p w) = tmp_counter w"
  "trace (cleanup p w) = trace w @ (if p \<in> files w then [FileRemoved p] else [])"
  by (simp_all add: cleanup_def os_remove_def)

lemma progress_of_append [simp]: "progress_of (xs @ ys) = progress_of xs @ progress_of ys"
  by (induction xs rule: progress_of.induct) simp_all

lemma progress_of_drop:
  "prefix xs ys \<Longrightarrow> progress_of ys = progress_of xs @ progress_of (drop (length xs) ys)"
  by (auto simp: prefix_def)

lemma filter_drop:
  "prefix xs ys \<Longrightarrow> filter P ys = filter P xs @ filter P (drop (length xs) ys)"
  by (auto simp: prefix_def)

subsection \<open>One pass of the recognition loop\<close>

lemma recognize_chunk_completes:
  assumes "pass_completes (chunk_export e i) (recognize_google e i)"
  shows "fst (recognize_chunk e i acc w) = Inr (acc @ recognized_fragment (recognize_google e i))"
    and "files (snd (recognize_chunk e i acc w)) = files w - {TmpPath (tmp_counter w) ''.wav''}"
    and "tmp_counter (snd (recognize_chunk e i acc w)) = Suc (tmp_counter w)"
    and "filter is_io (trace (snd (recognize_chunk e i acc w))) =
           filter is_io (trace w) @ pass_io (tmp_counter w) i"
  using assms
  by (cases "chunk_export e i"; cases "recognize_google e i";
      simp add: recognize_chunk_def mktemp_def os_remove_def pass_io_def)+

lemma recognize_chunk_raises:
  assumes "\<not> pass_completes (chunk_export e i) (recognize_google e i)"
  shows "\<exists>msg. fst (recognize_chunk e i acc w) = Inl msg"
  using assms
  by (cases "chunk_export e i"; cases "recognize_google e i";
      simp add: recognize_chunk_def mktemp_def os_remove_def)

lemma recognize_chunk_trace:
  "prefix (trace w) (trace (snd (recognize_chunk e i acc w)))"
  "progress_of (trace (snd (recognize_chunk e i acc w))) = progress_of (trace w)"
  "filter is_translate_call (trace (snd (recognize_chunk e i acc w))) = filter is_translate_call (trace w)"
  "filter is_synth_call (trace (snd (recognize_chunk e i acc w))) = filter is_synth_call (trace w)"
  "filter is_remux_call (trace (snd (recognize_chunk e i acc w))) = filter is_remux_call (trace w)"
  by (cases "chunk_export e i"; cases "recognize_google e i";
      simp add: recognize_chunk_def mktemp_def os_remove_def)+

subsection \<open>The recognition loop\<close>

lemma recognize_chunks_step:
  assumes "pass_completes (chunk_export e i) (recognize_google e i)"
  shows "recognize_chunks e i (c # cs) acc w =
     recognize_chunks e (Suc i) cs (acc @ recognized_fragment (recognize_google e i))
       (snd (recognize_chunk e i acc w))"
proof -
  obtain r w1 where rc: "recognize_chunk e i acc w = (r, w1)"
    by (cases "recognize_chunk e i acc w")
  with recognize_chunk_completes(1) [OF assms, of acc w]
  have "r = Inr (acc @ recognized_fragment (recognize_google e i))" by simp
  with rc show ?thesis by simp
qed

lemma recognize_chunks_stop:
  assumes "fst (recognize_chunk e i acc w) = Inl msg"
  shows "recognize_chunks e i (c # cs) acc w = (Inl msg, snd (recognize_chunk e i acc w))"
  using assms by (cases "recognize_chunk e i acc w") simp

lemma recognize_chunks_cases:
  obtains (stop) msg where "recognize_chunks e i (c # cs) acc w = (Inl msg, snd (recognize_chunk e i acc w))"
  | (step) texts where "recognize_chunks e i (c # cs) acc w =
       recognize_chunks e (Suc i) cs texts (snd (recognize_chunk e i acc w))"
proof (cases "recognize_chunk e i acc w")
  case (Pair r w1)
  then show ?thesis by (cases r) (auto intro: stop step)
qed

lemma recognize_chunks_completes:
  assumes "loop_completes_from e i (length cs)"
  shows "fst (recognize_chunks e i cs acc w) = Inr (acc @ fragments_from e i (length cs))"
    and "files (snd (recognize_chunks e i cs acc w)) =
           files w - (\<lambda>c. TmpPath c ''.wav'') ` {tmp_counter w..<tmp_counter w + length cs}"
    and "tmp_counter (snd (recognize_chunks e i cs acc w)) = tmp_counter w + length cs"
    and "filter is_io (trace (snd (recognize_chunks e i cs acc w))) =
           filter is_io (trace w) @ loop_io (tmp_counter w) i (length cs)"
  using assms
proof (induction cs arbitrary: i acc w)
  case Nil
  {
    case 1 show ?case by simp
  next
    case 2 show ?case by simp
  next
    case 3 show ?case by simp
  next
    case 4 show ?case by simp
  }
next
  case (Cons c cs)
  {
    case 1
    let ?w1 = "snd (recognize_chunk e i acc w)"
    let ?acc1 = "acc @ recognized_fragment (recognize_google e i)"
    from 1 have p: "pass_completes (chunk_export e i) (recognize_google e i)"
      and l: "loop_completes_from e (Suc i) (length cs)" by simp_all
    note step = recognize_chunks_step [OF p, of c cs acc w]
    show ?case unfolding step using Cons.IH(1) [OF l, of ?acc1 ?w1] by simp
  next
    case 2
    let ?w1 = "snd (recognize_chunk e i acc w)"
    let ?acc1 = "acc @ recognized_fragment (recognize_google e i)"
    from 2 have p: "pass_completes (chunk_export e i) (recognize_google e i)"
      and l: "loop_completes_from e (Suc i) (length cs)" by simp_all
    note step = recognize_chunks_step [OF p, of c cs acc w]
    have "{tmp_counter w..<tmp_counter w + Suc (length cs)} =
          insert (tmp_counter w) {Suc (tmp_counter w)..<Suc (tmp_counter w) + length cs}"
      by auto
    then show ?case
      unfolding step
      using Cons.IH(2) [OF l, of ?acc1 ?w1] recognize_chunk_completes(2,3) [OF p, of acc w]
      by auto
  next
    case 3
    let ?w1 = "snd (recognize_chunk e i acc w)"
    let ?acc1 = "acc @ recognized_fragment (recognize_google e i)"
    from 3 have p: "pass_completes (chunk_export e i) (recognize_google e i)"
      and l: "loop_completes_from e (Suc i) (length cs)" by simp_all
    note step = recognize_chunks_step [OF p, of c cs acc w]
    show ?case
      unfolding step
      using Cons.IH(3) [OF l, of ?acc1 ?w1] recognize_chunk_completes(3) [OF p, of acc w]
      by simp
  next
    case 4
    let ?w1 = "snd (recognize_chunk e i acc w)"
    let ?acc1 = "acc @ recognized_fragment (recognize_google e i)"
    from 4 have p: "pass_completes (chunk_export e i) (recognize_google e i)"
      and l: "loop_completes_from e (Suc i) (length cs)" by simp_all
    note step = recognize_chunks_step [OF p, of c cs acc w]
    show ?case
      unfolding step
      using Cons.IH(4) [OF l, of ?acc1 ?w1] recognize_chunk_completes(3,4) [OF p, of acc w]
      by simp
  }
qed

lemma recognize_chunks_raises:
  assumes "\<not> loop_completes_from e i (length cs)"
  shows "\<exists>msg. fst (recognize_chunks e i cs acc w) = Inl msg"
  using assms
proof (induction cs arbitrary: i acc w)
  case Nil
  then show ?case by simp
next
  case (Cons c cs)
  show ?case
  proof (cases "pass_completes (chunk_export e i) (recognize_google e i)")
    case True
    with Cons.prems have l: "\<not> loop_completes_from e (Suc i) (length cs)" by simp
    from Cons.IH [OF l] show ?thesis
      by (simp only: recognize_chunks_step [OF True])
  next
    case False
    from recognize_chunk_raises [OF False, of acc w]
    obtain msg where "fst (recognize_chunk e i acc w) = Inl msg" ..
    then show ?thesis by (simp only: recognize_chunks_stop fst_conv) simp
  qed
qed

lemma recognize_chunks_trace:
  "prefix (trace w) (trace (snd (recognize_chunks e i cs acc w)))"
  "progress_of (trace (snd (recognize_chunks e i cs acc w))) = progress_of (trace w)"
  "filter is_translate_call (trace (snd (recognize_chunks e i cs acc w))) = filter is_translate_call (trace w)"
  "filter is_synth_call (trace (snd (recognize_chunks e i cs acc w))) = filter is_synth_call (trace w)"
  "filter is_remux_call (trace (snd (recognize_chunks e i cs acc w))) = filter is_remux_call (trace w)"
proof (induction cs arbitrary: i acc w)
  case Nil
  {
    case 1 show ?case by simp
  next
    case 2 show ?case by simp
  next
    case 3 show ?case by simp
  next
    case 4 show ?case by simp
  next
    case 5 show ?case by simp
  }
next
  case (Cons c cs)
  {
    case 1
    let ?w1 = "snd (recognize_chunk e i acc w)"
    show ?case
    proof (cases rule: recognize_chunks_cases [of e i c cs acc w])
      case (stop msg)
      then show ?thesis by (simp only: snd_conv recognize_chunk_trace(1))
    next
      case (step texts)
      have "prefix (trace ?w1) (trace (snd (recognize_chunks e (Suc i) cs texts ?w1)))"
        by (rule Cons.IH(1))
      with recognize_chunk_trace(1) [of w e i acc]
      have "prefix (trace w) (trace (snd (recognize_chunks e (Suc i) cs texts ?w1)))"
        by (rule prefix_order.trans)
      then show ?thesis by (simp only: step)
    qed
  next
    case 2
    show ?case
    proof (cases rule: recognize_chunks_cases [of e i c cs acc w])
      case (stop msg)
      then show ?thesis by (simp only: snd_conv recognize_chunk_trace(2))
    next
      case (step texts)
      then show ?thesis by (simp only: Cons.IH(2) recognize_chunk_trace(2))
    qed
  next
    case 3
    show ?case
    proof (cases rule: recognize_chunks_cases [of e i c cs acc w])
      case (stop msg)
      then show ?thesis by (simp only: snd_conv recognize_chunk_trace(3))
    next
      case (step texts)
      then show ?thesis by (simp only: Cons.IH(3) recognize_chunk_trace(3))
    qed
  next
    case 4
    show ?case
    proof (cases rule: recognize_chunks_cases [of e i c cs acc w])
      case (stop msg)
      then show ?thesis by (simp only: snd_conv recognize_chunk_trace(4))
    next
      case (step texts)
      then show ?thesis by (simp only: Cons.IH(4) recognize_chunk_trace(4))
    qed
  next
    case 5
    show ?case
    proof (cases rule: recognize_chunks_cases [of e i c cs acc w])
      case (stop msg)
      then show ?thesis by (simp only: snd_conv recognize_chunk_trace(5))
    next
      case (step texts)
      then show ?thesis by (simp only: Cons.IH(5) recognize_chunk_trace(5))
    qed
  }
qed

subsection \<open>recognize_speech\<close>

lemma recognize_speech_result:
  "fst (recognize_speech e a w) =
     (case from_wav e a of
        Inl msg \<Rightarrow> None
      | Inr len \<Rightarrow>
          if loop_completes e (length (chunks len))
          then Some (py_join '' '' (fragments e (length (chunks len))))
          else None)"
proof (cases "from_wav e a")
  case (Inl msg)
  then show ?thesis by (simp add: recognize_speech_def)
next
  case (Inr len)
  let ?rc = "recognize_chunks e 0 (chunks len) [] w"
  show ?thesis
  proof (cases "loop_completes e (length (chunks len))")
    case True
    then have "fst ?rc = Inr (fragments e (length (chunks len)))"
      using recognize_chunks_completes(1) [of e 0 "chunks len" "[]" w]
      by (simp add: loop_completes_def fragments_def)
    with Inr True show ?thesis
      by (cases ?rc) (simp add: recognize_speech_def)
  next
    case False
    then obtain msg where "fst ?rc = Inl msg"
      using recognize_chunks_raises [of e 0 "chunks len" "[]" w]
      by (auto simp: loop_completes_def)
    with Inr False show ?thesis
      by (cases ?rc) (simp add: recognize_speech_def)
  qed
qed

lemma recognize_speech_trace:
  "prefix (trace w) (trace (snd (recognize_speech e a w)))"
  "progress_of (trace (snd (recognize_speech e a w))) = progress_of (trace w)"
  "filter is_translate_call (trace (snd (recognize_speech e a w))) = filter is_translate_call (trace w)"
  "filter is_synth_call (trace (snd (recognize_speech e a w))) = filter is_synth_call (trace w)"
  "filter is_remux_call (trace (snd (recognize_speech e a w))) = filter is_remux_call (trace w)"
proof -
  have "prefix (trace w) (trace (snd (recognize_speech e a w))) \<and>
    progress_of (trace (snd (recognize_speech e a w))) = progress_of (trace w) \<and>
    filter is_translate_call (trace (snd (recognize_speech e a w))) = filter is_translate_call (trace w) \<and>
    filter is_synth_call (trace (snd (recognize_speech e a w))) = filter is_synth_call (trace w) \<and>
    filter is_remux_call (trace (snd (recognize_speech e a w))) = filter is_remux_call (trace w)"
  proof (cases "from_wav e a")
    case (Inl msg)
    then show ?thesis by (simp add: recognize_speech_def)
  next
    case (Inr len)
    obtain r w1 where rc: "recognize_chunks e 0 (chunks len) [] w = (r, w1)"
      by (cases "recognize_chunks e 0 (chunks len) [] w")
    then have w1: "w1 = snd (recognize_chunks e 0 (chunks len) [] w)" by simp
    have "prefix (trace w) (trace w1)"
      and "progress_of (trace w1) = progress_of (trace w)"
      and "filter is_translate_call (trace w1) = filter is_translate_call (trace w)"
      and "filter is_synth_call (trace w1) = filter is_synth_call (trace w)"
      and "filter is_remux_call (trace w1) = filter is_remux_call (trace w)"
      unfolding w1 by (rule recognize_chunks_trace)+
    with Inr rc show ?thesis
      by (cases r) (simp_all add: recognize_speech_def prefix_prefix)
  qed
  then show "prefix (trace w) (trace (snd (recognize_speech e a w)))"
    and "progress_of (trace (snd (recognize_speech e a w))) = progress_of (trace w)"
    and "filter is_translate_call (trace (snd (recognize_speech e a w))) = filter is_translate_call (trace w)"
    and "filter is_synth_call (trace (snd (recognize_speech e a w))) = filter is_synth_call (trace w)"
    and "filter is_remux_call (trace (snd (recognize_speech e a w))) = filter is_remux_call (trace w)"
    by simp_all
qed

lemma recognize_speech_completes:
  assumes "from_wav e a = Inr len" and "loop_completes e (length (chunks len))"
  shows "files (snd (recognize_speech e a w)) =
           files w - (\<lambda>c. TmpPath c ''.wav'') ` {tmp_counter w..<tmp_counter w + length (chunks len)}"
    and "tmp_counter (snd (recognize_speech e a w)) = tmp_counter w + length (chunks len)"
    and "filter is_io (trace (snd (recognize_speech e a w))) =
           filter is_io (trace w) @ loop_io (tmp_counter w) 0 (length (chunks len))"
proof -
  obtain r w1 where rc: "recognize_chunks e 0 (chunks len) [] w = (r, w1)"
    by (cases "recognize_chunks e 0 (chunks len) [] w")
  then have w1: "w1 = snd (recognize_chunks e 0 (chunks len) [] w)"
    and r: "r = fst (recognize_chunks e 0 (chunks len) [] w)" by simp_all
  from assms(2) have l: "loop_completes_from e 0 (length (chunks len))"
    by (simp add: loop_completes_def)
  note c = recognize_chunks_completes [OF l, of "[]" w, folded w1 r]
  from c(1) assms(1) rc have rs: "snd (recognize_speech e a w) = w1"
    by (simp add: recognize_speech_def)
  show "files (snd (recognize_speech e a w)) =
           files w - (\<lambda>c. TmpPath c ''.wav'') ` {tmp_counter w..<tmp_counter w + length (chunks len)}"
    and "tmp_counter (snd (recognize_speech e a w)) = tmp_counter w + length (chunks len)"
    and "filter is_io (trace (snd (recognize_speech e a w))) =
           filter is_io (trace w) @ loop_io (tmp_counter w) 0 (length (chunks len))"
    unfolding rs by (rule c)+
qed

subsection \<open>extract_audio and generate_speech_eleven_labs\<close>

lemma extract_audio_result:
  "fst (extract_audio e p w) =
     (case video_clip e p of
        Inl msg \<Rightarrow> None
      | Inr duration \<Rightarrow>
          (case audio_write e p of
             Written \<Rightarrow> Some (TmpPath (tmp_counter w) ''.wav'')
           | WriteRaises msg left \<Rightarrow> None))"
  by (simp add: extract_audio_def mktemp_def split: sum.splits write_result.splits)

lemma extract_audio_written:
  assumes "fst (extract_audio e p w) = Some a"
  shows "a = TmpPath (tmp_counter w) ''.wav''"
    and "files (snd (extract_audio e p w)) = insert a (files w)"
    and "tmp_counter (snd (extract_audio e p w)) = Suc (tmp_counter w)"
    and "filter is_io (trace (snd (extract_audio e p w))) = filter is_io (trace w) @ [FileCreated a]"
  using assms
  by (auto simp: extract_audio_def mktemp_def split: sum.splits write_result.splits)

lemma extract_audio_trace:
  "prefix (trace w) (trace (snd (extract_audio e p w)))"
  "progress_of (trace (snd (extract_audio e p w))) = progress_of (trace w)"
  "filter is_translate_call (trace (snd (extract_audio e p w))) = filter is_translate_call (trace w)"
  "filter is_synth_call (trace (snd (extract_audio e p w))) = filter is_synth_call (trace w)"
  "filter is_remux_call (trace (snd (extract_audio e p w))) = filter is_remux_call (trace w)"
  by (simp_all add: extract_audio_def mktemp_def split: sum.splits write_result.splits)

lemma generate_speech_result:
  "fst (generate_speech_eleven_labs e text w) =
     (case text_to_speech e text of
        Written \<Rightarrow> Some (TmpPath (tmp_counter w) ''.mp3'')
      | WriteRaises msg left \<Rightarrow> None)"
  by (simp add: generate_speech_eleven_labs_def mktemp_def Let_def split: write_result.splits)

lemma generate_speech_written:
  assumes "fst (generate_speech_eleven_labs e text w) = Some a"
  shows "a = TmpPath (tmp_counter w) ''.mp3''"
    and "files (snd (generate_speech_eleven_labs e text w)) = insert a (files w)"
    and "tmp_counter (snd (generate_speech_eleven_labs e text w)) = Suc (tmp_counter w)"
    and "filter is_io (trace (snd (generate_speech_eleven_labs e text w))) =
           filter is_io (trace w) @ [SynthCall text, FileCreated a]"
  using assms
  by (auto simp: generate_speech_eleven_labs_def mktemp_def Let_def split: write_result.splits)

lemma generate_speech_trace:
  "prefix (trace w) (trace (snd (generate_speech_eleven_labs e text w)))"
  "progress_of (trace (snd (generate_speech_eleven_labs e text w))) = progress_of (trace w)"
  "filter is_translate_call (trace (snd (generate_speech_eleven_labs e text w))) = filter is_translate_call (trace w)"
  "filter is_synth_call (trace (snd (generate_speech_eleven_labs e text w))) =
     filter is_synth_call (trace w) @ [SynthCall text]"
  "filter is_remux_call (trace (snd (generate_speech_eleven_labs e text w))) = filter is_remux_call (trace w)"
  by (simp_all add: generate_speech_eleven_labs_def mktemp_def Let_def split: write_result.splits)

subsection \<open>The sections of process_video: progress\<close>

lemma reports_abort:
  assumes "progress_of (trace w') = progress_of (trace w)"
    and "\<And>out. r \<noteq> Inr (Some out)" and "cs \<noteq> []"
  shows "reports (r, w') w cs"
  unfolding reports_def using assms by (intro exI [of _ "[]"]) simp

lemma reports_step:
  assumes "reports rw w1 cs" and "progress_of (trace w1) = progress_of (trace w) @ [c]"
  shows "reports rw w (c # cs)"
proof -
  from assms(1) obtain ps where
    ps: "progress_of (trace (snd rw)) = progress_of (trace w1) @ ps" "prefix ps cs"
      "(ps = cs) = (\<exists>out. fst rw = Inr (Some out))"
    unfolding reports_def by blast
  with assms(2) show ?thesis
    unfolding reports_def by (intro exI [of _ "c # ps"]) simp
qed

lemma create_final_video_reports: "reports (create_final_video e p a s w) w [100]"
  unfolding reports_def
  by (cases "write_videofile e p s (UserPath (output_path_of p))")
     (simp_all add: create_final_video_def Let_def)

lemma generate_english_speech_reports: "reports (generate_english_speech e p a t w) w [85, 100]"
proof -
  let ?w1 = "emit (Status ''Generating English speech with ElevenLabs...'') w"
  obtain r w2 where g: "generate_speech_eleven_labs e t ?w1 = (r, w2)"
    by (cases "generate_speech_eleven_labs e t ?w1")
  then have w2: "w2 = snd (generate_speech_eleven_labs e t ?w1)" by simp
  have pr: "progress_of (trace w2) = progress_of (trace w)"
    unfolding w2 by (simp add: generate_speech_trace(2))
  show ?thesis
  proof (cases r)
    case None
    with g pr show ?thesis
      by (simp add: generate_english_speech_def reports_abort)
  next
    case (Some s)
    have "reports (create_final_video e p a s (emit (Progress 85) w2)) w [85, 100]"
      by (rule reports_step [OF create_final_video_reports]) (simp add: pr)
    with g Some show ?thesis by (simp add: generate_english_speech_def)
  qed
qed

lemma translate_to_english_reports: "reports (translate_to_english e p a u w) w [75, 85, 100]"
proof (cases "generate_content e (translation_prompt u)")
  case (Inl msg)
  then show ?thesis by (simp add: translate_to_english_def Let_def reports_abort)
next
  case (Inr t)
  let ?w2 = "emit (Progress 75) (emit (TranslateCall (translation_prompt u))
               (emit (Status ''Translating to English...'') w))"
  have "reports (generate_english_speech e p a t ?w2) w [75, 85, 100]"
    by (rule reports_step [OF generate_english_speech_reports]) simp
  with Inr show ?thesis by (simp add: translate_to_english_def Let_def)
qed

lemma recognize_urdu_speech_reports: "reports (recognize_urdu_speech e p a w) w [50, 75, 85, 100]"
proof -
  let ?w1 = "emit (Status ''Recognizing Urdu speech...'') w"
  obtain r w2 where g: "recognize_speech e a ?w1 = (r, w2)"
    by (cases "recognize_speech e a ?w1")
  then have w2: "w2 = snd (recognize_speech e a ?w1)" by simp
  have pr: "progress_of (trace w2) = progress_of (trace w)"
    unfolding w2 by (simp add: recognize_speech_trace(2))
  show ?thesis
  proof (cases "r = None \<or> r = Some []")
    case True
    with g pr show ?thesis
      by (auto simp: recognize_urdu_speech_def reports_abort)
  next
    case False
    then obtain u where u: "r = Some u" "u \<noteq> []" by (cases r) auto
    have "reports (translate_to_english e p a u (emit (Progress 50) w2)) w [50, 75, 85, 100]"
      by (rule reports_step [OF translate_to_english_reports]) (simp add: pr)
    with g u show ?thesis by (simp add: recognize_urdu_speech_def)
  qed
qed

lemma process_video_body_reports: "reports (process_video_body e p w) w checkpoints"
proof (cases "video_clip e p")
  case (Inl msg)
  then show ?thesis
    unfolding reports_def checkpoints_def
    by (intro exI [of _ "[0]"]) (simp add: process_video_body_def)
next
  case (Inr d)
  let ?w2 = "emit (Status ''Extracting audio...'') (emit (Progress 0) w)"
  obtain r w3 where g: "extract_audio e p ?w2 = (r, w3)"
    by (cases "extract_audio e p ?w2")
  then have w3: "w3 = snd (extract_audio e p ?w2)" by simp
  have pr: "progress_of (trace w3) = progress_of (trace w) @ [0]"
    unfolding w3 by (simp add: extract_audio_trace(2))
  show ?thesis
  proof (cases r)
    case None
    with Inr g pr show ?thesis
      unfolding reports_def checkpoints_def
      by (intro exI [of _ "[0]"]) (simp add: process_video_body_def)
  next
    case (Some a)
    have "reports (recognize_urdu_speech e p a (emit (Progress 25) w3)) w3 [25, 50, 75, 85, 100]"
      by (rule reports_step [OF recognize_urdu_speech_reports]) simp
    then have "reports (recognize_urdu_speech e p a (emit (Progress 25) w3)) w checkpoints"
      unfolding checkpoints_def
      using pr by (auto simp: reports_def)
    with Inr g Some show ?thesis by (simp add: process_video_body_def)
  qed
qed

subsection \<open>The sections of process_video: the trace only grows\<close>

lemma prefix_emit: "prefix xs (trace w) \<Longrightarrow> prefix xs (trace (emit ev w))"
  by (simp add: prefix_prefix)

lemma create_final_video_trace:
  "prefix (trace w) (trace (snd (create_final_video e p a s w)))"
  by (cases "write_videofile e p s (UserPath (output_path_of p))")
     (simp_all add: create_final_video_def Let_def prefix_def)

lemma generate_english_speech_trace:
  "prefix (trace w) (trace (snd (generate_english_speech e p a t w)))"
proof -
  let ?w1 = "emit (Status ''Generating English speech with ElevenLabs...'') w"
  obtain r w2 where g: "generate_speech_eleven_labs e t ?w1 = (r, w2)"
    by (cases "generate_speech_eleven_labs e t ?w1")
  then have w2: "w2 = snd (generate_speech_eleven_labs e t ?w1)" by simp
  have "prefix (trace ?w1) (trace w2)"
    unfolding w2 by (rule generate_speech_trace(1))
  then have pw: "prefix (trace w) (trace w2)" by (simp add: append_prefixD)
  show ?thesis
  proof (cases r)
    case None
    with g pw show ?thesis by (simp add: generate_english_speech_def)
  next
    case (Some s)
    from pw have "prefix (trace w) (trace (emit (Progress 85) w2))" by (rule prefix_emit)
    then have "prefix (trace w) (trace (snd (create_final_video e p a s (emit (Progress 85) w2))))"
      using create_final_video_trace by (rule prefix_order.trans)
    with g Some show ?thesis by (simp add: generate_english_speech_def)
  qed
qed

lemma translate_to_english_trace:
  "prefix (trace w) (trace (snd (translate_to_english e p a u w)))"
proof (cases "generate_content e (translation_prompt u)")
  case (Inl msg)
  then show ?thesis by (simp add: translate_to_english_def Let_def prefix_def)
next
  case (Inr t)
  let ?w2 = "emit (Progress 75) (emit (TranslateCall (translation_prompt u))
               (emit (Status ''Translating to English...'') w))"
  have "prefix (trace w) (trace ?w2)" by (simp add: prefix_def)
  then have "prefix (trace w) (trace (snd (generate_english_speech e p a t ?w2)))"
    using generate_english_speech_trace by (rule prefix_order.trans)
  with Inr show ?thesis by (simp add: translate_to_english_def Let_def)
qed

lemma recognize_urdu_speech_trace:
  "prefix (trace w) (trace (snd (recognize_urdu_speech e p a w)))"
proof -
  let ?w1 = "emit (Status ''Recognizing Urdu speech...'') w"
  obtain r w2 where g: "recognize_speech e a ?w1 = (r, w2)"
    by (cases "recognize_speech e a ?w1")
  then have w2: "w2 = snd (recognize_speech e a ?w1)" by simp
  have "prefix (trace ?w1) (trace w2)"
    unfolding w2 by (rule recognize_speech_trace(1))
  then have pw: "prefix (trace w) (trace w2)" by (simp add: append_prefixD)
  show ?thesis
  proof (cases "r = None \<or> r = Some []")
    case True
    with g pw show ?thesis by (auto simp: recognize_urdu_speech_def)
  next
    case False
    then obtain u where u: "r = Some u" "u \<noteq> []" by (cases r) auto
    from pw have "prefix (trace w) (trace (emit (Progress 50) w2))" by (rule prefix_emit)
    then have "prefix (trace w) (trace (snd (translate_to_english e p a u (emit (Progress 50) w2))))"
      using translate_to_english_trace by (rule prefix_order.trans)
    with g u show ?thesis by (simp add: recognize_urdu_speech_def)
  qed
qed

lemma process_video_body_trace:
  "prefix (trace w) (trace (snd (process_video_body e p w)))"
proof (cases "video_clip e p")
  case (Inl msg)
  then show ?thesis by (simp add: process_video_body_def prefix_def)
next
  case (Inr d)
  let ?w2 = "emit (Status ''Extracting audio...'') (emit (Progress 0) w)"
  obtain r w3 where g: "extract_audio e p ?w2 = (r, w3)"
    by (cases "extract_audio e p ?w2")
  then have w3: "w3 = snd (extract_audio e p ?w2)" by simp
  have "prefix (trace ?w2) (trace w3)"
    unfolding w3 by (rule extract_audio_trace(1))
  then have "prefix (trace (emit (Progress 0) w)) (trace w3)" by (simp add: append_prefixD)
  then have pw: "prefix (trace w) (trace w3)" by (simp add: append_prefixD)
  show ?thesis
  proof (cases r)
    case None
    with Inr g pw show ?thesis by (simp add: process_video_body_def)
  next
    case (Some a)
    from pw have "prefix (trace w) (trace (emit (Progress 25) w3))" by (rule prefix_emit)
    then have "prefix (trace w) (trace (snd (recognize_urdu_speech e p a (emit (Progress 25) w3))))"
      using recognize_urdu_speech_trace by (rule prefix_order.trans)
    with Inr g Some show ?thesis by (simp add: process_video_body_def)
  qed
qed

lemma process_video_fst:
  "fst (process_video e p w) = (case fst (process_video_body e p w) of Inl msg \<Rightarrow> None | Inr r \<Rightarrow> r)"
  by (cases "process_video_body e p w") (simp add: process_video_def split: sum.splits)

lemma process_video_snd:
  "trace (snd (process_video e p w)) =
     trace (snd (process_video_body e p w)) @
     (case fst (process_video_body e p w) of
        Inl msg \<Rightarrow> [UiError (''Error processing video: '' @ msg)]
      | Inr r \<Rightarrow> [])"
  "files (snd (process_video e p w)) = files (snd (process_video_body e p w))"
  by (cases "process_video_body e p w"; simp add: process_video_def split: sum.splits)+

lemma process_video_trace: "prefix (trace w) (trace (snd (process_video e p w)))"
  using process_video_body_trace [of w e p]
  by (simp add: process_video_snd prefix_prefix)

lemma run_events_append: "trace (snd (process_video e p w)) = trace w @ run_events e p w"
  using process_video_trace [of w e p] by (auto simp: run_events_def prefix_def)

lemma run_events_progress:
  "progress_of (trace (snd (process_video_body e p w))) = progress_of (trace w) @ progress_of (run_events e p w)"
proof -
  have "progress_of (trace (snd (process_video e p w))) = progress_of (trace (snd (process_video_body e p w)))"
    by (simp add: process_video_snd split: sum.splits)
  then show ?thesis by (simp add: run_events_append)
qed

subsection \<open>The sections of process_video: the result\<close>

lemma create_final_video_result:
  "fst (create_final_video e p a s w) =
     (case write_videofile e p s (UserPath (output_path_of p)) of
        Written \<Rightarrow> Inr (Some (output_path_of p))
      | WriteRaises msg left \<Rightarrow> Inl msg)"
  by (simp add: create_final_video_def Let_def split: write_result.splits)

lemma generate_english_speech_result:
  "fst (generate_english_speech e p a t w) =
     (case text_to_speech e t of
        WriteRaises msg left \<Rightarrow> Inr None
      | Written \<Rightarrow>
          (case write_videofile e p (TmpPath (tmp_counter w) ''.mp3'') (UserPath (output_path_of p)) of
             Written \<Rightarrow> Inr (Some (output_path_of p))
           | WriteRaises msg left \<Rightarrow> Inl msg))"
proof -
  let ?w1 = "emit (Status ''Generating English speech with ElevenLabs...'') w"
  obtain r w2 where g: "generate_speech_eleven_labs e t ?w1 = (r, w2)"
    by (cases "generate_speech_eleven_labs e t ?w1")
  then have r: "r = fst (generate_speech_eleven_labs e t ?w1)" by simp
  show ?thesis
  proof (cases "text_to_speech e t")
    case Written
    with r have "r = Some (TmpPath (tmp_counter w) ''.mp3'')"
      by (simp add: generate_speech_result)
    with g Written show ?thesis
      by (simp add: generate_english_speech_def create_final_video_result)
  next
    case (WriteRaises msg left)
    with r have "r = None" by (simp add: generate_speech_result)
    with g WriteRaises show ?thesis by (simp add: generate_english_speech_def)
  qed
qed

lemma translate_to_english_result:
  "fst (translate_to_english e p a u w) =
     (case generate_content e (translation_prompt u) of
        Inl msg \<Rightarrow> Inl msg
      | Inr t \<Rightarrow>
          (case text_to_speech e t of
             WriteRaises msg left \<Rightarrow> Inr None
           | Written \<Rightarrow>
               (case write_videofile e p (TmpPath (tmp_counter w) ''.mp3'') (UserPath (output_path_of p)) of
                  Written \<Rightarrow> Inr (Some (output_path_of p))
                | WriteRaises msg left \<Rightarrow> Inl msg)))"
  by (cases "generate_content e (translation_prompt u)")
     (simp_all add: translate_to_english_def Let_def generate_english_speech_result
        split: write_result.splits)

lemma recognize_speech_counter:
  assumes "fst (recognize_speech e a w) = Some u"
  shows "\<exists>len. from_wav e a = Inr len \<and> loop_completes e (length (chunks len)) \<and>
           u = py_join '' '' (fragments e (length (chunks len))) \<and>
           tmp_counter (snd (recognize_speech e a w)) = tmp_counter w + length (chunks len)"
proof (cases "from_wav e a")
  case (Inl msg)
  with assms show ?thesis by (simp add: recognize_speech_result)
next
  case (Inr len)
  with assms have l: "loop_completes e (length (chunks len))"
    and u: "u = py_join '' '' (fragments e (length (chunks len)))"
    by (auto simp: recognize_speech_result split: if_splits)
  from recognize_speech_completes(2) [OF Inr l, of w] Inr l u show ?thesis by simp
qed

lemma recognize_urdu_speech_result:
  "fst (recognize_urdu_speech e p a w) =
     (case from_wav e a of
        Inl msg \<Rightarrow> Inr None
      | Inr len \<Rightarrow>
          if loop_completes e (length (chunks len)) \<and>
             py_join '' '' (fragments e (length (chunks len))) \<noteq> []
          then fst (translate_to_english e p a (py_join '' '' (fragments e (length (chunks len))))
                      (w\<lparr>tmp_counter := tmp_counter w + length (chunks len)\<rparr>))
          else Inr None)"
proof -
  let ?w1 = "emit (Status ''Recognizing Urdu speech...'') w"
  obtain r w2 where g: "recognize_speech e a ?w1 = (r, w2)"
    by (cases "recognize_speech e a ?w1")
  then have r: "r = fst (recognize_speech e a ?w1)"
    and w2: "w2 = snd (recognize_speech e a ?w1)" by simp_all
  show ?thesis
  proof (cases "r = None \<or> r = Some []")
    case True
    with g have "fst (recognize_urdu_speech e p a w) = Inr None"
      by (auto simp: recognize_urdu_speech_def)
    moreover from True r have "fst (recognize_speech e a ?w1) = None \<or> fst (recognize_speech e a ?w1) = Some []"
      by simp
    ultimately show ?thesis
      by (auto simp: recognize_speech_result split: sum.splits if_splits)
  next
    case False
    then obtain u where u: "r = Some u" "u \<noteq> []" by (cases r) auto
    with r have "fst (recognize_speech e a ?w1) = Some u" by simp
    from recognize_speech_counter [OF this] obtain len where
      len: "from_wav e a = Inr len" "loop_completes e (length (chunks len))"
        "u = py_join '' '' (fragments e (length (chunks len)))"
        "tmp_counter w2 = tmp_counter w + length (chunks len)"
      unfolding w2 by auto
    from g u have "fst (recognize_urdu_speech e p a w) =
        fst (translate_to_english e p a u (emit (Progress 50) w2))"
      by (simp add: recognize_urdu_speech_def)
    with len u(2) show ?thesis
      by (simp add: translate_to_english_result split: sum.splits write_result.splits)
  qed
qed

lemma process_video_body_result:
  "fst (process_video_body e p w) =
     (case video_clip e p of
        Inl msg \<Rightarrow> Inl msg
      | Inr d \<Rightarrow>
          (case audio_write e p of
             WriteRaises msg left \<Rightarrow> Inr None
           | Written \<Rightarrow>
               fst (recognize_urdu_speech e p (TmpPath (tmp_counter w) ''.wav'')
                      (w\<lparr>tmp_counter := Suc (tmp_counter w)\<rparr>))))"
proof (cases "video_clip e p")
  case (Inl msg)
  then show ?thesis by (simp add: process_video_body_def)
next
  case (Inr d)
  let ?w2 = "emit (Status ''Extracting audio...'') (emit (Progress 0) w)"
  obtain r w3 where g: "extract_audio e p ?w2 = (r, w3)"
    by (cases "extract_audio e p ?w2")
  then have r: "r = fst (extract_audio e p ?w2)"
    and w3: "w3 = snd (extract_audio e p ?w2)" by simp_all
  show ?thesis
  proof (cases "audio_write e p")
    case Written
    with r Inr have rs: "r = Some (TmpPath (tmp_counter w) ''.wav'')"
      by (simp add: extract_audio_result)
    with r have "fst (extract_audio e p ?w2) = Some (TmpPath (tmp_counter w) ''.wav'')" by simp
    from extract_audio_written(3) [OF this] have "tmp_counter w3 = Suc (tmp_counter w)"
      unfolding w3 by simp
    with Inr Written g rs show ?thesis
      by (simp add: process_video_body_def recognize_urdu_speech_result translate_to_english_result
          split: sum.splits write_result.splits)
  next
    case (WriteRaises msg left)
    with r Inr have "r = None" by (simp add: extract_audio_result)
    with Inr WriteRaises g show ?thesis by (simp add: process_video_body_def)
  qed
qed

lemma process_video_result:
  "fst (process_video e p w) = (if stages_return e p w then Some (output_path_of p) else None)"
proof (cases "video_clip e p")
  case (Inl msg)
  then show ?thesis
    by (simp add: process_video_fst process_video_body_result stages_return_def)
next
  case (Inr d)
  show ?thesis
  proof (cases "audio_write e p")
    case (WriteRaises msg left)
    with Inr show ?thesis
      by (simp add: process_video_fst process_video_body_result stages_return_def)
  next
    case Written
    show ?thesis
    proof (cases "from_wav e (TmpPath (tmp_counter w) ''.wav'')")
      case (Inl msg)
      with Inr Written show ?thesis
        by (simp add: process_video_fst process_video_body_result recognize_urdu_speech_result
            stages_return_def)
    next
      case len: (Inr len)
      let ?u = "py_join '' '' (fragments e (length (chunks len)))"
      show ?thesis
      proof (cases "loop_completes e (length (chunks len)) \<and> ?u \<noteq> []")
        case False
        with Inr Written len show ?thesis
          by (auto simp: process_video_fst process_video_body_result recognize_urdu_speech_result
              stages_return_def)
      next
        case True
        show ?thesis
        proof (cases "generate_content e (translation_prompt ?u)")
          case (Inl msg)
          with Inr Written len True show ?thesis
            by (simp add: process_video_fst process_video_body_result recognize_urdu_speech_result
                translate_to_english_result stages_return_def)
        next
          case t: (Inr t)
          with Inr Written len True show ?thesis
            by (simp add: process_video_fst process_video_body_result recognize_urdu_speech_result
                translate_to_english_result stages_return_def split: write_result.splits)
        qed
      qed
    qed
  qed
qed

subsection \<open>The sections of process_video: the calls of the services\<close>

lemma recognize_speech_any_world:
  "fst (recognize_speech e a w) = fst (recognize_speech e a w')"
  by (simp add: recognize_speech_result)

lemma create_final_video_calls:
  "filter is_translate_call (trace (snd (create_final_video e p a s w))) = filter is_translate_call (trace w)"
  "filter is_synth_call (trace (snd (create_final_video e p a s w))) = filter is_synth_call (trace w)"
  "filter is_remux_call (trace (snd (create_final_video e p a s w))) =
     filter is_remux_call (trace w) @ [RemuxCall p s (output_path_of p) ''libx264'' ''aac'']"
  by (cases "write_videofile e p s (UserPath (output_path_of p))";
      simp add: create_final_video_def Let_def)+

lemma generate_english_speech_calls:
  "filter is_translate_call (trace (snd (generate_english_speech e p a t w))) = filter is_translate_call (trace w)"
  "filter is_synth_call (trace (snd (generate_english_speech e p a t w))) = filter is_synth_call (trace w) @ [SynthCall t]"
proof -
  let ?w1 = "emit (Status ''Generating English speech with ElevenLabs...'') w"
  obtain r w2 where g: "generate_speech_eleven_labs e t ?w1 = (r, w2)"
    by (cases "generate_speech_eleven_labs e t ?w1")
  then have w2: "w2 = snd (generate_speech_eleven_labs e t ?w1)" by simp
  have tr: "filter is_translate_call (trace w2) = filter is_translate_call (trace w)"
    and sy: "filter is_synth_call (trace w2) = filter is_synth_call (trace w) @ [SynthCall t]"
    unfolding w2 by (simp_all add: generate_speech_trace)
  show "filter is_translate_call (trace (snd (generate_english_speech e p a t w))) = filter is_translate_call (trace w)"
    using g tr by (cases r) (simp_all add: generate_english_speech_def create_final_video_calls)
  show "filter is_synth_call (trace (snd (generate_english_speech e p a t w))) = filter is_synth_call (trace w) @ [SynthCall t]"
    using g sy by (cases r) (simp_all add: generate_english_speech_def create_final_video_calls)
qed

lemma translate_to_english_calls:
  "filter is_translate_call (trace (snd (translate_to_english e p a u w))) =
     filter is_translate_call (trace w) @ [TranslateCall (translation_prompt u)]"
  "filter is_synth_call (trace (snd (translate_to_english e p a u w))) =
     filter is_synth_call (trace w) @
     (case generate_content e (translation_prompt u) of Inl msg \<Rightarrow> [] | Inr t \<Rightarrow> [SynthCall t])"
  by (cases "generate_content e (translation_prompt u)";
      simp add: translate_to_english_def Let_def generate_english_speech_calls)+

lemma recognize_urdu_speech_calls:
  "filter is_translate_call (trace (snd (recognize_urdu_speech e p a w))) =
     filter is_translate_call (trace w) @
     (case fst (recognize_speech e a w) of
        None \<Rightarrow> []
      | Some u \<Rightarrow> if u = [] then [] else [TranslateCall (translation_prompt u)])"
  "filter is_synth_call (trace (snd (recognize_urdu_speech e p a w))) =
     filter is_synth_call (trace w) @
     (case fst (recognize_speech e a w) of
        None \<Rightarrow> []
      | Some u \<Rightarrow>
          if u = [] then []
          else (case generate_content e (translation_prompt u) of
                  Inl msg \<Rightarrow> []
                | Inr t \<Rightarrow> [SynthCall t]))"
proof -
  let ?w1 = "emit (Status ''Recognizing Urdu speech...'') w"
  obtain r w2 where g: "recognize_speech e a ?w1 = (r, w2)"
    by (cases "recognize_speech e a ?w1")
  then have w2: "w2 = snd (recognize_speech e a ?w1)"
    and "r = fst (recognize_speech e a ?w1)" by simp_all
  then have r: "fst (recognize_speech e a w) = r"
    using recognize_speech_any_world [of e a w ?w1] by simp
  have tr: "filter is_translate_call (trace w2) = filter is_translate_call (trace w)"
    and sy: "filter is_synth_call (trace w2) = filter is_synth_call (trace w)"
    unfolding w2 by (simp_all add: recognize_speech_trace)
  show "filter is_translate_call (trace (snd (recognize_urdu_speech e p a w))) =
     filter is_translate_call (trace w) @
     (case fst (recognize_speech e a w) of
        None \<Rightarrow> []
      | Some u \<Rightarrow> if u = [] then [] else [TranslateCall (translation_prompt u)])"
    unfolding r using g tr
    by (cases r) (simp_all add: recognize_urdu_speech_def translate_to_english_calls)
  show "filter is_synth_call (trace (snd (recognize_urdu_speech e p a w))) =
     filter is_synth_call (trace w) @
     (case fst (recognize_speech e a w) of
        None \<Rightarrow> []
      | Some u \<Rightarrow>
          if u = [] then []
          else (case generate_content e (translation_prompt u) of
                  Inl msg \<Rightarrow> []
                | Inr t \<Rightarrow> [SynthCall t]))"
    unfolding r using g sy
    by (cases r) (simp_all add: recognize_urdu_speech_def translate_to_english_calls)
qed

lemma process_video_body_calls:
  "filter is_translate_call (trace (snd (process_video_body e p w))) =
     filter is_translate_call (trace w) @
     (case source_text e p w of
        None \<Rightarrow> []
      | Some u \<Rightarrow> if u = [] then [] else [TranslateCall (translation_prompt u)])"
  "filter is_synth_call (trace (snd (process_video_body e p w))) =
     filter is_synth_call (trace w) @
     (case source_text e p w of
        None \<Rightarrow> []
      | Some u \<Rightarrow>
          if u = [] then []
          else (case generate_content e (translation_prompt u) of
                  Inl msg \<Rightarrow> []
                | Inr t \<Rightarrow> [SynthCall t]))"
proof -
  have "filter is_translate_call (trace (snd (process_video_body e p w))) =
     filter is_translate_call (trace w) @
     (case source_text e p w of
        None \<Rightarrow> []
      | Some u \<Rightarrow> if u = [] then [] else [TranslateCall (translation_prompt u)]) \<and>
    filter is_synth_call (trace (snd (process_video_body e p w))) =
     filter is_synth_call (trace w) @
     (case source_text e p w of
        None \<Rightarrow> []
      | Some u \<Rightarrow>
          if u = [] then []
          else (case generate_content e (translation_prompt u) of
                  Inl msg \<Rightarrow> []
                | Inr t \<Rightarrow> [SynthCall t]))"
  proof (cases "video_clip e p")
    case (Inl msg)
    then show ?thesis by (simp add: process_video_body_def source_text_def)
  next
    case (Inr d)
    let ?w2 = "emit (Status ''Extracting audio...'') (emit (Progress 0) w)"
    obtain r w3 where g: "extract_audio e p ?w2 = (r, w3)"
      by (cases "extract_audio e p ?w2")
    then have r: "r = fst (extract_audio e p ?w2)"
      and w3: "w3 = snd (extract_audio e p ?w2)" by simp_all
    have tr: "filter is_translate_call (trace w3) = filter is_translate_call (trace w)"
      and sy: "filter is_synth_call (trace w3) = filter is_synth_call (trace w)"
      unfolding w3 by (simp_all add: extract_audio_trace)
    show ?thesis
    proof (cases "audio_write e p")
      case Written
      with r Inr have rs: "r = Some (TmpPath (tmp_counter w) ''.wav'')"
        by (simp add: extract_audio_result)
      have st: "source_text e p w = fst (recognize_speech e (TmpPath (tmp_counter w) ''.wav'') (emit (Progress 25) w3))"
        using Inr Written recognize_speech_any_world [of e _ w]
        by (simp add: source_text_def)
      from Inr g rs tr sy show ?thesis
        by (simp add: process_video_body_def recognize_urdu_speech_calls st)
    next
      case (WriteRaises msg left)
      with r Inr have "r = None" by (simp add: extract_audio_result)
      with Inr WriteRaises g tr sy show ?thesis
        by (simp add: process_video_body_def source_text_def)
    qed
  qed
  then show "filter is_translate_call (trace (snd (process_video_body e p w))) =
     filter is_translate_call (trace w) @
     (case source_text e p w of
        None \<Rightarrow> []
      | Some u \<Rightarrow> if u = [] then [] else [TranslateCall (translation_prompt u)])"
  and "filter is_synth_call (trace (snd (process_video_body e p w))) =
     filter is_synth_call (trace w) @
     (case source_text e p w of
        None \<Rightarrow> []
      | Some u \<Rightarrow>
          if u = [] then []
          else (case generate_content e (translation_prompt u) of
                  Inl msg \<Rightarrow> []
                | Inr t \<Rightarrow> [SynthCall t]))"
    by simp_all
qed

lemma run_events_filter:
  assumes "\<And>msg. \<not> P (UiError msg)"
  shows "filter P (trace (snd (process_video_body e p w))) = filter P (trace w) @ filter P (run_events e p w)"
proof -
  have "filter P (trace (snd (process_video e p w))) = filter P (trace (snd (process_video_body e p w)))"
    using assms by (simp add: process_video_snd split: sum.splits)
  then show ?thesis by (simp add: run_events_append)
qed

lemma run_translate_calls:
  "filter is_translate_call (run_events e p w) =
     (case source_text e p w of
        None \<Rightarrow> []
      | Some u \<Rightarrow> if u = [] then [] else [TranslateCall (translation_prompt u)])"
  using process_video_body_calls(1) [of e p w] run_events_filter [of is_translate_call e p w]
  by simp

lemma run_synth_calls:
  "filter is_synth_call (run_events e p w) =
     (case source_text e p w of
        None \<Rightarrow> []
      | Some u \<Rightarrow>
          if u = [] then []
          else (case generate_content e (translation_prompt u) of
                  Inl msg \<Rightarrow> []
                | Inr t \<Rightarrow> [SynthCall t]))"
  using process_video_body_calls(2) [of e p w] run_events_filter [of is_synth_call e p w]
  by simp

subsection \<open>The duration check\<close>

text \<open>
  Claim C2. \<^verbatim>\<open>check_video_duration\<close> accepts exactly when the clip can be opened and
  its duration is at most 90 seconds: a longer clip is rejected, and so is one whose
  opening raises.
\<close>

theorem check_video_duration_verdict:
  "(fst (check_video_duration e video_path w) \<longleftrightarrow>
      (\<exists>duration. video_clip e video_path = Inr duration \<and> duration \<le> 90)) \<and>
   (video_clip e video_path = Inr duration \<and> 90 < duration \<longrightarrow>
      \<not> fst (check_video_duration e video_path w)) \<and>
   (video_clip e video_path = Inl msg \<longrightarrow> \<not> fst (check_video_duration e video_path w))"
  by (cases "video_clip e video_path") (simp_all add: check_video_duration_def)

theorem check_video_duration_verdict_witness:
  "fst (check_video_duration clear_speech ''clip.mp4'' start) \<and>
   \<not> fst (check_video_duration two_minutes ''clip.mp4'' start) \<and>
   \<not> fst (check_video_duration unreadable ''clip.mp4'' start)"
proof -
  have a: "video_clip clear_speech ''clip.mp4'' = Inr 45"
    by (simp add: clear_speech_def)
  have b: "video_clip two_minutes ''clip.mp4'' = Inr 120 \<and> (90::real) < 120"
    by (simp add: two_minutes_def clear_speech_def)
  have c: "video_clip unreadable ''clip.mp4'' = Inl ''file could not be opened''"
    by (simp add: unreadable_def clear_speech_def)
  from a have "\<exists>duration. video_clip clear_speech ''clip.mp4'' = Inr duration \<and> duration \<le> 90"
    by simp
  with check_video_duration_verdict [of clear_speech "''clip.mp4''" start]
  have "fst (check_video_duration clear_speech ''clip.mp4'' start)" by blast
  moreover from b check_video_duration_verdict [of two_minutes "''clip.mp4''" start 120]
  have "\<not> fst (check_video_duration two_minutes ''clip.mp4'' start)" by blast
  moreover from c check_video_duration_verdict [of unreadable "''clip.mp4''" start _ "''file could not be opened''"]
  have "\<not> fst (check_video_duration unreadable ''clip.mp4'' start)" by blast
  ultimately show ?thesis by simp
qed

subsection \<open>The chunks of the audio\<close>

lemma py_range_length_iff:
  "k < length (py_range i stop step) \<longleftrightarrow> (0 < step \<and> i + k * step < stop)"
proof (induction i stop step arbitrary: k rule: py_range.induct)
  case (1 i stop step)
  show ?case
  proof (cases "step = 0 \<or> \<not> i < stop")
    case True
    then show ?thesis by (auto simp: py_range.simps[of i stop step])
  next
    case False
    then show ?thesis
      using "1"[of "k - 1"]
      by (cases k) (auto simp: py_range.simps[of i stop step] algebra_simps)
  qed
qed

lemma py_range_nth:
  "k < length (py_range i stop step) \<Longrightarrow> py_range i stop step ! k = i + k * step"
proof (induction i stop step arbitrary: k rule: py_range.induct)
  case (1 i stop step)
  show ?case
  proof (cases "step = 0 \<or> \<not> i < stop")
    case True
    with "1.prems" show ?thesis by (auto simp: py_range.simps[of i stop step])
  next
    case False
    then show ?thesis
      using "1.IH"[of "k - 1"] "1.prems"
      by (cases k) (auto simp: py_range.simps[of i stop step] algebra_simps)
  qed
qed

lemma chunks_length_iff: "k < length (chunks n) \<longleftrightarrow> k * chunk_length < n"
  by (simp add: chunks_def py_range_length_iff) (simp add: chunk_length_def)

lemma chunks_nth:
  assumes "k < length (chunks n)"
  shows "chunks n ! k = (k * chunk_length, min ((k + 1) * chunk_length) n)"
proof -
  from assms have lt: "k * chunk_length < n" by (simp add: chunks_length_iff)
  from assms have "k < length (py_range 0 n chunk_length)" by (simp add: chunks_def)
  then have "py_range 0 n chunk_length ! k = k * chunk_length"
    by (simp add: py_range_nth)
  with assms lt show ?thesis
    by (simp add: chunks_def audio_slice_def min_def algebra_simps)
qed

lemma chunk_length_pos: "0 < chunk_length"
  by (simp add: chunk_length_def)

lemma chunks_contiguous:
  assumes "Suc k < length (chunks n)"
  shows "snd (chunks n ! k) = fst (chunks n ! Suc k)"
proof -
  from assms have "Suc k * chunk_length < n" by (simp add: chunks_length_iff)
  with assms show ?thesis by (simp add: chunks_nth)
qed

lemma chunks_nonempty:
  assumes "k < length (chunks n)"
  shows "fst (chunks n ! k) < snd (chunks n ! k)"
  using assms chunk_length_pos by (simp add: chunks_nth chunks_length_iff)

lemma chunks_bounded:
  assumes "k < length (chunks n)"
  shows "snd (chunks n ! k) - fst (chunks n ! k) \<le> chunk_length"
  using assms by (simp add: chunks_nth chunks_length_iff)

lemma chunks_last_end:
  assumes "chunks n \<noteq> []"
  shows "snd (last (chunks n)) = n"
proof -
  let ?m = "length (chunks n)"
  from assms have m: "?m - 1 < ?m" by simp
  have "\<not> ?m * chunk_length < n" using chunks_length_iff[of ?m n] by simp
  moreover from assms have "Suc (?m - 1) = ?m" by simp
  ultimately have "n \<le> (?m - 1 + 1) * chunk_length" by simp
  then show ?thesis using m assms by (simp add: last_conv_nth chunks_nth)
qed

lemma chunks_cover: "(\<Union>(a, b) \<in> set (chunks n). {a..<b}) = {0..<n}"
proof (rule set_eqI, rule iffI)
  fix x
  assume "x \<in> (\<Union>(a, b) \<in> set (chunks n). {a..<b})"
  then obtain a b where ab: "(a, b) \<in> set (chunks n)" and x: "a \<le> x" "x < b" by auto
  from ab obtain k where k: "k < length (chunks n)" "chunks n ! k = (a, b)"
    by (auto simp: in_set_conv_nth)
  then have "b \<le> n" by (auto simp: chunks_nth)
  with x show "x \<in> {0..<n}" by simp
next
  fix x
  assume "x \<in> {0..<n}"
  then have xn: "x < n" by simp
  let ?k = "x div chunk_length"
  have le: "?k * chunk_length \<le> x" by simp
  from le xn have "?k * chunk_length < n" by (rule le_less_trans)
  then have k: "?k < length (chunks n)" by (simp only: chunks_length_iff)
  have "x < (?k + 1) * chunk_length"
    using chunk_length_pos by (simp add: dividend_less_div_times)
  with xn le k have "x \<in> {fst (chunks n ! ?k)..<snd (chunks n ! ?k)}"
    by (simp add: chunks_nth)
  moreover from k have "chunks n ! ?k \<in> set (chunks n)" by simp
  ultimately show "x \<in> (\<Union>(a, b) \<in> set (chunks n). {a..<b})"
    by (force simp: split_beta)
qed

lemma chunks_disjoint:
  assumes "j < k" "k < length (chunks n)"
  shows "{fst (chunks n ! j)..<snd (chunks n ! j)} \<inter> {fst (chunks n ! k)..<snd (chunks n ! k)} = {}"
proof -
  from assms have j: "j < length (chunks n)" by simp
  from assms have "(j + 1) * chunk_length \<le> k * chunk_length"
    by (intro mult_le_mono1) simp
  with assms j show ?thesis by (auto simp: chunks_nth)
qed

text \<open>
  Claim C3. With the chunk length of 30 seconds (30000 ms), an audio of \<open>n\<close> ms is cut
  into the chunks \<open>k\<close> with \<open>k * 30000 < n\<close>; chunk \<open>k\<close> starts at \<open>k * 30000\<close> and ends at
  \<open>min ((k + 1) * 30000) n\<close>. Each chunk ends where the next starts, two different chunks
  do not overlap, the chunks together cover \<open>[0, n)\<close>, and only the last can be shorter.
\<close>

theorem chunks_partition:
  "chunk_length = 30 * 1000 \<and>
   (\<forall>k. k < length (chunks n) \<longleftrightarrow> k * chunk_length < n) \<and>
   (\<forall>k. k < length (chunks n) \<longrightarrow>
      fst (chunks n ! k) = k * chunk_length \<and>
      snd (chunks n ! k) = min ((k + 1) * chunk_length) n) \<and>
   (\<forall>k. Suc k < length (chunks n) \<longrightarrow>
      snd (chunks n ! k) = fst (chunks n ! Suc k) \<and>
      snd (chunks n ! k) - fst (chunks n ! k) = chunk_length) \<and>
   (\<forall>j k. j < k \<and> k < length (chunks n) \<longrightarrow>
      {fst (chunks n ! j)..<snd (chunks n ! j)} \<inter> {fst (chunks n ! k)..<snd (chunks n ! k)} = {}) \<and>
   (\<Union>(a, b) \<in> set (chunks n). {a..<b}) = {0..<n} \<and>
   (chunks n \<noteq> [] \<longrightarrow> snd (last (chunks n)) = n)"
proof -
  have full: "snd (chunks n ! k) - fst (chunks n ! k) = chunk_length"
    if "Suc k < length (chunks n)" for k
  proof -
    from that have "Suc k * chunk_length < n" by (simp only: chunks_length_iff)
    moreover from that have "k < length (chunks n)" by simp
    ultimately show ?thesis by (simp add: chunks_nth)
  qed
  have c1: "chunk_length = 30 * 1000" by (simp add: chunk_length_def)
  have c2: "\<forall>k. k < length (chunks n) \<longleftrightarrow> k * chunk_length < n"
    by (simp only: chunks_length_iff) simp
  have c3: "\<forall>k. k < length (chunks n) \<longrightarrow>
      fst (chunks n ! k) = k * chunk_length \<and>
      snd (chunks n ! k) = min ((k + 1) * chunk_length) n"
  proof (intro allI impI)
    fix k assume "k < length (chunks n)"
    then have "chunks n ! k = (k * chunk_length, min ((k + 1) * chunk_length) n)"
      by (rule chunks_nth)
    then show "fst (chunks n ! k) = k * chunk_length \<and>
      snd (chunks n ! k) = min ((k + 1) * chunk_length) n" by simp
  qed
  have c4: "\<forall>k. Suc k < length (chunks n) \<longrightarrow>
      snd (chunks n ! k) = fst (chunks n ! Suc k) \<and>
      snd (chunks n ! k) - fst (chunks n ! k) = chunk_length"
    using chunks_contiguous full by blast
  have c5: "\<forall>j k. j < k \<and> k < length (chunks n) \<longrightarrow>
      {fst (chunks n ! j)..<snd (chunks n ! j)} \<inter> {fst (chunks n ! k)..<snd (chunks n ! k)} = {}"
    using chunks_disjoint by blast
  have c6: "chunks n \<noteq> [] \<longrightarrow> snd (last (chunks n)) = n"
    using chunks_last_end by blast
  from c1 c2 c3 c4 c5 chunks_cover c6 show ?thesis by (intro conjI)
qed

theorem chunks_partition_witness:
  "length (chunks 45000) = 2 \<and>
   fst (chunks 45000 ! 0) = 0 \<and> snd (chunks 45000 ! 0) = 30000 \<and>
   fst (chunks 45000 ! 1) = 30000 \<and> snd (chunks 45000 ! 1) = 45000 \<and>
   snd (last (chunks 45000)) = 45000"
proof -
  note p = chunks_partition [of 45000]
  from p have iff: "k < length (chunks 45000) \<longleftrightarrow> k * chunk_length < 45000" for k
    by (elim conjE) (erule allE)
  from p have bounds: "k < length (chunks 45000) \<Longrightarrow>
      fst (chunks 45000 ! k) = k * chunk_length \<and>
      snd (chunks 45000 ! k) = min ((k + 1) * chunk_length) 45000" for k
    by (elim conjE) (erule allE, erule (1) mp)
  from p have final: "chunks 45000 \<noteq> [] \<Longrightarrow> snd (last (chunks 45000)) = 45000"
    by (elim conjE) (erule (1) mp)
  have l0: "0 < length (chunks 45000)" and l1: "1 < length (chunks 45000)"
    and l2: "\<not> 2 < length (chunks 45000)"
    by (simp_all only: iff) (simp_all add: chunk_length_def)
  from l1 l2 have len: "length (chunks 45000) = 2" by simp
  from l0 have ne: "chunks 45000 \<noteq> []" by auto
  show ?thesis
    using bounds [OF l0] bounds [OF l1] final [OF ne] len
    by (simp add: chunk_length_def)
qed

subsection \<open>The scenarios\<close>

lemma chunks_45000: "chunks 45000 = [(0, 30000), (30000, 45000)]"
  by (simp add: chunks_def chunk_length_def audio_slice_def py_range.simps)


lemma stages_return_clear_speech: "stages_return clear_speech ''clip.mp4'' start"
  by (simp add: stages_return_def clear_speech_def start_def chunks_45000 loop_completes_def
      fragments_def)

subsection \<open>The result of a run\<close>



subsection \<open>The progress reports\<close>

lemma prefix_checkpoints_cases:
  assumes "prefix ps checkpoints"
  shows "ps = checkpoints \<or> 100 \<notin> set ps"
proof -
  from assms have "ps \<in> set (prefixes checkpoints)" by (simp only: in_set_prefixes)
  then show ?thesis by (auto simp: checkpoints_def)
qed

text \<open>
  Claim C8. The progress values that one run reports are a prefix of the checkpoints
  0, 25, 50, 75, 85, 100: they never decrease, no other value is reported, and 100 is
  reported exactly by the runs that return the output path.
\<close>

theorem progress_checkpoints:
  "checkpoints = [0, 25, 50, 75, 85, 100] \<and>
   prefix (progress_of (run_events e p w)) checkpoints \<and>
   sorted (progress_of (run_events e p w)) \<and>
   set (progress_of (run_events e p w)) \<subseteq> set checkpoints \<and>
   (100 \<in> set (progress_of (run_events e p w)) \<longleftrightarrow>
      fst (process_video e p w) = Some (output_path_of p))"
proof -
  from process_video_body_reports [of e p w] obtain ps where
    ps: "progress_of (trace (snd (process_video_body e p w))) = progress_of (trace w) @ ps"
      and pre: "prefix ps checkpoints"
      and full: "(ps = checkpoints) = (\<exists>out. fst (process_video_body e p w) = Inr (Some out))"
    unfolding reports_def by blast
  from ps have run: "progress_of (run_events e p w) = ps"
    by (simp add: run_events_progress)
  from pre obtain zs where zs: "checkpoints = ps @ zs" by (auto simp: prefix_def)
  have "sorted checkpoints" by (simp add: checkpoints_def)
  then have srt: "sorted ps" unfolding zs by (simp add: sorted_append)
  from pre have sub: "set ps \<subseteq> set checkpoints" by (rule set_mono_prefix)
  have succ: "(\<exists>out. fst (process_video_body e p w) = Inr (Some out)) \<longleftrightarrow>
      fst (process_video e p w) = Some (output_path_of p)"
  proof
    assume "\<exists>out. fst (process_video_body e p w) = Inr (Some out)"
    then obtain out where "fst (process_video e p w) = Some out"
      by (auto simp: process_video_fst)
    then show "fst (process_video e p w) = Some (output_path_of p)"
      by (simp add: process_video_result split: if_splits)
  next
    assume "fst (process_video e p w) = Some (output_path_of p)"
    then show "\<exists>out. fst (process_video_body e p w) = Inr (Some out)"
      by (cases "fst (process_video_body e p w)") (simp_all add: process_video_fst)
  qed
  have hundred: "100 \<in> set ps \<longleftrightarrow> ps = checkpoints"
  proof
    assume "100 \<in> set ps"
    with prefix_checkpoints_cases [OF pre] show "ps = checkpoints" by blast
  next
    assume "ps = checkpoints"
    then show "100 \<in> set ps" by (simp add: checkpoints_def)
  qed
  show ?thesis
    unfolding run using pre srt sub hundred full succ by (simp add: checkpoints_def)
qed

theorem progress_checkpoints_witness:
  "prefix (progress_of (run_events unintelligible ''clip.mp4'' start)) [0, 25, 50, 75, 85, 100] \<and>
   100 \<notin> set (progress_of (run_events unintelligible ''clip.mp4'' start)) \<and>
   100 \<in> set (progress_of (run_events clear_speech ''clip.mp4'' start))"
proof -
  have "\<not> stages_return unintelligible ''clip.mp4'' start"
    by (simp add: stages_return_def unintelligible_def clear_speech_def start_def chunks_45000
        loop_completes_def fragments_def)
  then have "fst (process_video unintelligible ''clip.mp4'' start) \<noteq> Some (output_path_of ''clip.mp4'')"
    by (simp add: process_video_result)
  moreover have "fst (process_video clear_speech ''clip.mp4'' start) = Some (output_path_of ''clip.mp4'')"
    by (simp add: process_video_result stages_return_clear_speech)
  ultimately show ?thesis
    using progress_checkpoints [of unintelligible "''clip.mp4''" start]
      progress_checkpoints [of clear_speech "''clip.mp4''" start]
    by simp
qed

subsection \<open>Runs that end at the recognition\<close>

lemma loop_completes_from_iff:
  "loop_completes_from e k n \<longleftrightarrow>
     (\<forall>i<n. pass_completes (chunk_export e (k + i)) (recognize_google e (k + i)))"
proof (induction n arbitrary: k)
  case 0
  show ?case by simp
next
  case (Suc n)
  have "(\<forall>i<Suc n. pass_completes (chunk_export e (k + i)) (recognize_google e (k + i))) \<longleftrightarrow>
        pass_completes (chunk_export e k) (recognize_google e k) \<and>
        (\<forall>i<n. pass_completes (chunk_export e (Suc k + i)) (recognize_google e (Suc k + i)))"
    by (auto simp: less_Suc_eq_0_disj)
  with Suc [of "Suc k"] show ?case by simp
qed

lemma loop_completes_iff:
  "loop_completes e n \<longleftrightarrow> (\<forall>i<n. pass_completes (chunk_export e i) (recognize_google e i))"
  by (simp add: loop_completes_def loop_completes_from_iff)

lemma soft_failure_completes:
  "chunk_export e i = Written \<Longrightarrow> soft_failure (recognize_google e i) \<Longrightarrow>
   pass_completes (chunk_export e i) (recognize_google e i)"
  by (cases "recognize_google e i") simp_all

lemma fragments_from_soft:
  "(\<forall>i<n. soft_failure (recognize_google e (k + i))) \<Longrightarrow> fragments_from e k n = []"
proof (induction n arbitrary: k)
  case 0
  show ?case by simp
next
  case (Suc n)
  from Suc.prems have "soft_failure (recognize_google e k)" by force
  then have "recognized_fragment (recognize_google e k) = []"
    by (cases "recognize_google e k") simp_all
  moreover from Suc.prems have "\<forall>i<n. soft_failure (recognize_google e (Suc k + i))"
    by (metis Suc_less_eq add_Suc_shift)
  then have "fragments_from e (Suc k) n = []" by (rule Suc.IH)
  ultimately show ?case by simp
qed

lemma every_chunk_fails:
  assumes "\<forall>i<n. chunk_export e i = Written \<and> soft_failure (recognize_google e i)"
  shows "loop_completes e n" and "py_join '' '' (fragments e n) = []"
proof -
  from assms show "loop_completes e n"
    unfolding loop_completes_iff by (blast intro: soft_failure_completes)
  from assms have "fragments_from e 0 n = []"
    by (intro fragments_from_soft) simp
  then show "py_join '' '' (fragments e n) = []" by (simp add: fragments_def)
qed

lemma process_video_body_stops_at_recognition:
  assumes "video_clip e p = Inr d" and "audio_write e p = Written"
    and "fst (recognize_speech e (TmpPath (tmp_counter w) ''.wav'') w1) = None \<or>
         fst (recognize_speech e (TmpPath (tmp_counter w) ''.wav'') w1) = Some []"
  shows "process_video e p w =
     (None, snd (recognize_speech e (TmpPath (tmp_counter w) ''.wav'')
                   (emit (Status ''Recognizing Urdu speech...'')
                     (emit (Progress 25)
                       (create_file (TmpPath (tmp_counter w) ''.wav'')
                         (emit (Status ''Extracting audio...'') (emit (Progress 0) w)
                            \<lparr>tmp_counter := Suc (tmp_counter w)\<rparr>))))))"
proof -
  let ?a = "TmpPath (tmp_counter w) ''.wav''"
  let ?w3 = "create_file ?a (emit (Status ''Extracting audio...'') (emit (Progress 0) w)
                            \<lparr>tmp_counter := Suc (tmp_counter w)\<rparr>)"
  let ?w4 = "emit (Status ''Recognizing Urdu speech...'') (emit (Progress 25) ?w3)"
  have ex: "extract_audio e p (emit (Status ''Extracting audio...'') (emit (Progress 0) w)) = (Some ?a, ?w3)"
    using assms(1,2) by (simp add: extract_audio_def mktemp_def)
  obtain r w5 where g: "recognize_speech e ?a ?w4 = (r, w5)"
    by (cases "recognize_speech e ?a ?w4")
  then have "r = fst (recognize_speech e ?a ?w4)" by simp
  with assms(3) recognize_speech_any_world [of e ?a w1 ?w4] have "r = None \<or> r = Some []"
    by simp
  with g have "recognize_urdu_speech e p ?a (emit (Progress 25) ?w3) = (Inr None, w5)"
    by (auto simp: recognize_urdu_speech_def)
  with assms(1) ex g show ?thesis
    by (simp add: process_video_def process_video_body_def)
qed

text \<open>
  Claim C5. When every chunk fails to be transcribed, the loop still completes and the
  joined text is empty. Whenever the loop completes with an empty text, the run returns
  None, calls neither the translation nor the synthesis, and its storage and service
  events are the creation of the extracted audio followed, chunk after chunk, by the
  creation of the chunk's file, the recognition call on it and the removal of that file;
  no chunk file is on storage when the run returns.
\<close>

theorem all_segments_fail:
  "((\<forall>i<n. chunk_export e i = Written \<and> soft_failure (recognize_google e i)) \<longrightarrow>
      loop_completes e n \<and> py_join '' '' (fragments e n) = []) \<and>
   (video_clip e p = Inr d \<and> audio_write e p = Written \<and>
    from_wav e (TmpPath (tmp_counter w) ''.wav'') = Inr len \<and>
    loop_completes e (length (chunks len)) \<and>
    py_join '' '' (fragments e (length (chunks len))) = [] \<longrightarrow>
      fst (process_video e p w) = None \<and>
      filter is_translate_call (run_events e p w) = [] \<and>
      filter is_synth_call (run_events e p w) = [] \<and>
      filter is_io (run_events e p w) =
        FileCreated (TmpPath (tmp_counter w) ''.wav'') #
        loop_io (Suc (tmp_counter w)) 0 (length (chunks len)) \<and>
      (\<forall>i<length (chunks len).
         TmpPath (Suc (tmp_counter w) + i) ''.wav'' \<notin> files (snd (process_video e p w))))"
proof (intro conjI impI)
  assume "\<forall>i<n. chunk_export e i = Written \<and> soft_failure (recognize_google e i)"
  then show "loop_completes e n" and "py_join '' '' (fragments e n) = []"
    by (rule every_chunk_fails)+
next
  let ?a = "TmpPath (tmp_counter w) ''.wav''"
  let ?n = "length (chunks len)"
  let ?w4 = "emit (Status ''Recognizing Urdu speech...'')
               (emit (Progress 25)
                 (create_file ?a
                   (emit (Status ''Extracting audio...'') (emit (Progress 0) w)
                      \<lparr>tmp_counter := Suc (tmp_counter w)\<rparr>)))"
  assume a: "video_clip e p = Inr d \<and> audio_write e p = Written \<and>
    from_wav e ?a = Inr len \<and> loop_completes e ?n \<and> py_join '' '' (fragments e ?n) = []"
  then have v: "video_clip e p = Inr d" and aw: "audio_write e p = Written"
    and fw: "from_wav e ?a = Inr len" and lc: "loop_completes e ?n"
    and em: "py_join '' '' (fragments e ?n) = []" by simp_all
  from fw lc em have rs: "fst (recognize_speech e ?a w) = Some []"
    by (simp add: recognize_speech_result)
  then have st: "source_text e p w = Some []"
    using v aw by (simp add: source_text_def)
  from rs have "fst (recognize_speech e ?a w) = None \<or> fst (recognize_speech e ?a w) = Some []"
    by simp
  from process_video_body_stops_at_recognition [OF v aw this]
  have pv: "process_video e p w = (None, snd (recognize_speech e ?a ?w4))" .
  then show "fst (process_video e p w) = None" by simp
  from st show "filter is_translate_call (run_events e p w) = []"
    by (simp add: run_translate_calls)
  from st show "filter is_synth_call (run_events e p w) = []"
    by (simp add: run_synth_calls)
  have "filter is_io (trace (snd (process_video e p w))) =
          filter is_io (trace w) @ FileCreated ?a # loop_io (Suc (tmp_counter w)) 0 ?n"
    unfolding pv snd_conv recognize_speech_completes(3) [OF fw lc] by simp
  then show "filter is_io (run_events e p w) = FileCreated ?a # loop_io (Suc (tmp_counter w)) 0 ?n"
    by (simp add: run_events_append)
  have "files (snd (process_video e p w)) =
          files ?w4 - (\<lambda>c. TmpPath c ''.wav'') ` {Suc (tmp_counter w)..<Suc (tmp_counter w) + ?n}"
    unfolding pv snd_conv recognize_speech_completes(1) [OF fw lc] by simp
  then show "\<forall>i<?n. TmpPath (Suc (tmp_counter w) + i) ''.wav'' \<notin> files (snd (process_video e p w))"
    by auto
qed

theorem all_segments_fail_witness:
  "fst (process_video unintelligible ''clip.mp4'' start) = None \<and>
   filter is_translate_call (run_events unintelligible ''clip.mp4'' start) = [] \<and>
   filter is_synth_call (run_events unintelligible ''clip.mp4'' start) = [] \<and>
   filter is_io (run_events unintelligible ''clip.mp4'' start) =
     [FileCreated (TmpPath 0 ''.wav''),
      FileCreated (TmpPath 1 ''.wav''), SttCall 0, FileRemoved (TmpPath 1 ''.wav''),
      FileCreated (TmpPath 2 ''.wav''), SttCall 1, FileRemoved (TmpPath 2 ''.wav'')] \<and>
   TmpPath 1 ''.wav'' \<notin> files (snd (process_video unintelligible ''clip.mp4'' start)) \<and>
   TmpPath 2 ''.wav'' \<notin> files (snd (process_video unintelligible ''clip.mp4'' start))"
proof -
  note t = all_segments_fail [of 2 unintelligible "''clip.mp4''" 45 start 45000]
  have "\<forall>i<2. chunk_export unintelligible i = Written \<and> soft_failure (recognize_google unintelligible i)"
    by (simp add: unintelligible_def clear_speech_def)
  with t have "loop_completes unintelligible 2 \<and> py_join '' '' (fragments unintelligible 2) = []"
    by blast
  moreover have "length (chunks 45000) = 2" by (simp add: chunks_45000)
  ultimately have "video_clip unintelligible ''clip.mp4'' = Inr 45 \<and>
    audio_write unintelligible ''clip.mp4'' = Written \<and>
    from_wav unintelligible (TmpPath (tmp_counter start) ''.wav'') = Inr 45000 \<and>
    loop_completes unintelligible (length (chunks 45000)) \<and>
    py_join '' '' (fragments unintelligible (length (chunks 45000))) = []"
    by (simp add: unintelligible_def clear_speech_def)
  with t have c: "fst (process_video unintelligible ''clip.mp4'' start) = None \<and>
      filter is_translate_call (run_events unintelligible ''clip.mp4'' start) = [] \<and>
      filter is_synth_call (run_events unintelligible ''clip.mp4'' start) = [] \<and>
      filter is_io (run_events unintelligible ''clip.mp4'' start) =
        FileCreated (TmpPath (tmp_counter start) ''.wav'') #
        loop_io (Suc (tmp_counter start)) 0 (length (chunks 45000)) \<and>
      (\<forall>i<length (chunks 45000).
         TmpPath (Suc (tmp_counter start) + i) ''.wav'' \<notin> files (snd (process_video unintelligible ''clip.mp4'' start)))"
    by blast
  have l: "loop_io (Suc 0) 0 (Suc (Suc 0)) =
      [FileCreated (TmpPath 1 ''.wav''), SttCall 0, FileRemoved (TmpPath 1 ''.wav''),
       FileCreated (TmpPath 2 ''.wav''), SttCall 1, FileRemoved (TmpPath 2 ''.wav'')]"
    by (simp add: pass_io_def numeral_2_eq_2)
  from c have f: "\<forall>i<Suc (Suc 0). TmpPath (Suc i) ''.wav'' \<notin> files (snd (process_video unintelligible ''clip.mp4'' start))"
    by (simp add: chunks_45000 start_def)
  from f [THEN spec, of 0] f [THEN spec, of 1] c l show ?thesis
    by (simp add: chunks_45000 start_def numeral_2_eq_2)
qed

text \<open>
  Claim C10. \<^verbatim>\<open>recognize_speech\<close> returns the empty string when the audio loads and
  every chunk is exported and fails with one of the two handled exceptions; it returns
  None when the loading raises, and when the export or the recognition of some chunk
  raises another exception. A run whose \<^verbatim>\<open>recognize_speech\<close> returns either of the two
  returns None and never calls the translation.
\<close>

theorem recognize_speech_failure_shapes:
  "(from_wav e a = Inr len \<and>
    (\<forall>i<length (chunks len). chunk_export e i = Written \<and> soft_failure (recognize_google e i)) \<longrightarrow>
      fst (recognize_speech e a w) = Some []) \<and>
   (from_wav e a = Inl msg \<longrightarrow> fst (recognize_speech e a w) = None) \<and>
   (from_wav e a = Inr len \<and> i < length (chunks len) \<and>
    (chunk_export e i = WriteRaises msg left \<or> recognize_google e i = SttRaises msg) \<longrightarrow>
      fst (recognize_speech e a w) = None) \<and>
   (video_clip e p = Inr d \<and> audio_write e p = Written \<and>
    (fst (recognize_speech e (TmpPath (tmp_counter w0) ''.wav'') w) = None \<or>
     fst (recognize_speech e (TmpPath (tmp_counter w0) ''.wav'') w) = Some []) \<longrightarrow>
      fst (process_video e p w0) = None \<and>
      filter is_translate_call (run_events e p w0) = [])"
proof (intro conjI impI)
  assume "from_wav e a = Inr len \<and>
    (\<forall>i<length (chunks len). chunk_export e i = Written \<and> soft_failure (recognize_google e i))"
  then show "fst (recognize_speech e a w) = Some []"
    using every_chunk_fails [of "length (chunks len)" e]
    by (simp add: recognize_speech_result)
next
  assume "from_wav e a = Inl msg"
  then show "fst (recognize_speech e a w) = None"
    by (simp add: recognize_speech_result)
next
  assume a: "from_wav e a = Inr len \<and> i < length (chunks len) \<and>
    (chunk_export e i = WriteRaises msg left \<or> recognize_google e i = SttRaises msg)"
  then have "\<not> pass_completes (chunk_export e i) (recognize_google e i)"
    by (cases "chunk_export e i") auto
  with a have "\<not> loop_completes e (length (chunks len))"
    by (auto simp: loop_completes_iff)
  with a show "fst (recognize_speech e a w) = None"
    by (simp add: recognize_speech_result)
next
  let ?a = "TmpPath (tmp_counter w0) ''.wav''"
  assume a: "video_clip e p = Inr d \<and> audio_write e p = Written \<and>
    (fst (recognize_speech e ?a w) = None \<or> fst (recognize_speech e ?a w) = Some [])"
  then have v: "video_clip e p = Inr d" and aw: "audio_write e p = Written"
    and r: "fst (recognize_speech e ?a w) = None \<or> fst (recognize_speech e ?a w) = Some []"
    by simp_all
  from process_video_body_stops_at_recognition [OF v aw r]
  show "fst (process_video e p w0) = None" by simp
  from r recognize_speech_any_world [of e ?a w w0]
  have "source_text e p w0 = None \<or> source_text e p w0 = Some []"
    using v aw by (simp add: source_text_def)
  then show "filter is_translate_call (run_events e p w0) = []"
    by (auto simp: run_translate_calls)
qed

theorem recognize_speech_failure_shapes_witness:
  "fst (recognize_speech unintelligible (TmpPath 0 ''.wav'') start) = Some [] \<and>
   fst (recognize_speech corrupt_audio (TmpPath 0 ''.wav'') start) = None \<and>
   fst (recognize_speech recogniser_crash (TmpPath 0 ''.wav'') start) = None \<and>
   fst (process_video unintelligible ''clip.mp4'' start) = None \<and>
   filter is_translate_call (run_events unintelligible ''clip.mp4'' start) = [] \<and>
   fst (process_video recogniser_crash ''clip.mp4'' start) = None \<and>
   filter is_translate_call (run_events recogniser_crash ''clip.mp4'' start) = []"
proof -
  note u = recognize_speech_failure_shapes
    [of unintelligible "TmpPath 0 ''.wav''" 45000 start "[]" 0 False "''clip.mp4''" 45 start]
  note k = recognize_speech_failure_shapes
    [of corrupt_audio "TmpPath 0 ''.wav''" 0 start "''not a wav file''" 0 False "''clip.mp4''" 45 start]
  note c = recognize_speech_failure_shapes
    [of recogniser_crash "TmpPath 0 ''.wav''" 45000 start "''connection reset''" 0 False "''clip.mp4''" 45 start]
  have "from_wav unintelligible (TmpPath 0 ''.wav'') = Inr 45000 \<and>
    (\<forall>i<length (chunks 45000). chunk_export unintelligible i = Written \<and>
       soft_failure (recognize_google unintelligible i))"
    by (simp add: unintelligible_def clear_speech_def)
  with u have r1: "fst (recognize_speech unintelligible (TmpPath 0 ''.wav'') start) = Some []"
    by blast
  have "from_wav corrupt_audio (TmpPath 0 ''.wav'') = Inl ''not a wav file''"
    by (simp add: corrupt_audio_def clear_speech_def)
  with k have r2: "fst (recognize_speech corrupt_audio (TmpPath 0 ''.wav'') start) = None"
    by blast
  have "from_wav recogniser_crash (TmpPath 0 ''.wav'') = Inr 45000 \<and> 0 < length (chunks 45000) \<and>
    (chunk_export recogniser_crash 0 = WriteRaises ''connection reset'' False \<or>
     recognize_google recogniser_crash 0 = SttRaises ''connection reset'')"
    by (simp add: recogniser_crash_def clear_speech_def chunks_45000)
  with c have r3: "fst (recognize_speech recogniser_crash (TmpPath 0 ''.wav'') start) = None"
    by blast
  have "video_clip unintelligible ''clip.mp4'' = Inr 45 \<and> audio_write unintelligible ''clip.mp4'' = Written"
    by (simp add: unintelligible_def clear_speech_def)
  with r1 u have p1: "fst (process_video unintelligible ''clip.mp4'' start) = None \<and>
      filter is_translate_call (run_events unintelligible ''clip.mp4'' start) = []"
    by (simp add: start_def)
  have "video_clip recogniser_crash ''clip.mp4'' = Inr 45 \<and> audio_write recogniser_crash ''clip.mp4'' = Written"
    by (simp add: recogniser_crash_def clear_speech_def)
  with r3 c have p2: "fst (process_video recogniser_crash ''clip.mp4'' start) = None \<and>
      filter is_translate_call (run_events recogniser_crash ''clip.mp4'' start) = []"
    by (simp add: start_def)
  from r1 r2 r3 p1 p2 show ?thesis by simp
qed

end
